theory Spec2Isabelle
  imports Complex_Main "HOL-Library.Word"
begin

section \<open>Tiled kernels of the Snitch cluster: FlashAttention-2 and LayerNorm\<close>

text \<open>
  The two kernels are embedded twice, each time from the C source:
  \<^item> as the sequence of synchronisation and dispatch events one core executes
    (barriers, DMA calls, diagnostics, kernel calls), which depends only on the
    configuration record and on the role of the core;
  \<^item> as the effect of one cluster on memory, where the work of the compute cores of a
    barrier-separated phase is composed core after core (the cores of a phase own
    disjoint rows).
  Floating-point numbers are idealised: a finite value is a \<open>real\<close> and every operation
  is exact. The running maxima, which the source initialises to \<open>-INFINITY\<close>, have a
  type of their own. Memory is indexed by element, not by byte.
\<close>

subsection \<open>Machine integers, precision selector, role queries\<close>

type_synonym u32 = "32 word"

text \<open>
  Modelled from the spec: the declaration of \<open>precision_t\<close> (dnn.h) is not among the
  sources; the kernels only compare the selector with \<open>FP32\<close> and \<open>FP16\<close>.
\<close>

datatype precision_t = FP64 | FP32 | FP16 | FP8

text \<open>
  Modelled from the spec: the runtime queries (snrt.h) are not among the sources. They are
  pure and constant during one kernel invocation; a core is a compute core or the one
  data-mover core of its cluster.
\<close>

record snrt =
  cluster_idx :: u32
  cluster_num :: u32
  cluster_core_idx :: u32
  cluster_compute_core_num :: u32
  global_core_idx :: u32

definition snrt_is_compute_core :: "snrt \<Rightarrow> bool" where
  "snrt_is_compute_core c = (cluster_core_idx c < cluster_compute_core_num c)"

definition snrt_is_dm_core :: "snrt \<Rightarrow> bool" where
  "snrt_is_dm_core c = (\<not> snrt_is_compute_core c)"

subsection \<open>Events of one core\<close>

datatype ln_kernel = Fp32Naive | Fp32Opt | Fp16Naive | Fp16Opt

text \<open>
  A scratchpad pointer is an offset in bytes from \<open>snrt_l1_next()\<close>, or indeterminate
  when the source never assigns it.
\<close>

datatype tile_ptr = Indeterminate | L1 u32

datatype event =
    Printf string
  | Mcycle
  | DmaStart2d
  | DmaWaitAll
  | ClusterHwBarrier
  | GlobalBarrier
  | FpuFence
  | Fault
  | KernelCall ln_kernel tile_ptr tile_ptr u32 u32 u32 int
  | ScStGemm
  | TransposeKernel
  | StatsInit
  | SoftmaxRows
  | Normalize

text \<open>
  Sequencing of the events of two program parts: undefined behaviour (\<open>Fault\<close>) ends
  the run, so nothing of the second part is executed after it.
\<close>

definition then_t :: "event list \<Rightarrow> event list \<Rightarrow> event list" where
  "then_t a b = (if Fault \<in> set a then a else a @ b)"

fun loop_t :: "nat \<Rightarrow> event list \<Rightarrow> event list" where
  "loop_t 0 body = []"
| "loop_t (Suc n) body = then_t body (loop_t n body)"

definition barriers :: "event list \<Rightarrow> nat" where
  "barriers t = length (filter (\<lambda>e. e = ClusterHwBarrier) t)"

text \<open>
  The cluster barrier is a rendezvous: every core runs its local events up to its next
  barrier call; when all cores stand at a barrier they are released together; the run
  ends well when all cores have finished, and is stuck when some core has finished
  while another waits at a barrier.
\<close>

definition to_barrier :: "event list \<Rightarrow> event list" where
  "to_barrier t = dropWhile (\<lambda>e. e \<noteq> ClusterHwBarrier) t"

function cluster_run :: "event list list \<Rightarrow> bool" where
  "cluster_run ts =
     (if list_all (\<lambda>t. to_barrier t = []) ts then True
      else if list_all (\<lambda>t. to_barrier t \<noteq> []) ts
           then cluster_run (map (\<lambda>t. tl (to_barrier t)) ts)
      else False)"
  by pat_completeness auto
termination
proof (relation "measure (\<lambda>ts. sum_list (map length ts))", goal_cases)
  case 1
  show ?case by simp
next
  case (2 ts)
  have len: "length (to_barrier t) \<le> length t" for t
    unfolding to_barrier_def by (rule length_dropWhile_le)
  from 2 obtain t where t: "t \<in> set ts"
    by (cases ts) auto
  have waiting: "\<forall>t\<in>set ts. to_barrier t \<noteq> []"
    using 2 by (simp add: list_all_iff)
  have "sum_list (map (\<lambda>t. length (tl (to_barrier t))) ts) < sum_list (map length ts)"
    using waiting t
  proof (induction ts)
    case Nil
    then show ?case by simp
  next
    case (Cons a ts)
    have a: "length (tl (to_barrier a)) < length a"
      using Cons.prems(1) len [of a] by (cases "to_barrier a") auto
    have "length (tl (to_barrier u)) \<le> length u" for u
      using len [of u] by simp
    then have "sum_list (map (\<lambda>t. length (tl (to_barrier t))) ts) \<le> sum_list (map length ts)"
      by (intro sum_list_mono) simp
    then show ?case using a by simp
  qed
  then show ?case by (simp add: comp_def)
qed

declare cluster_run.simps [simp del]

subsection \<open>LayerNorm: configuration and the events of \<open>layernorm_layer\<close>\<close>

record layernorm_layer_t =
  batch_size :: u32
  seq_len :: u32
  embeddings :: u32
  n_tiles :: u32
  baseline :: u32
  eps :: real
  dtype :: precision_t

text \<open>
  The kernels declare \<open>int32_t eps\<close> and the layer passes the \<open>float\<close> field: the
  implicit conversion truncates towards zero.
\<close>

definition float_to_int32 :: "real \<Rightarrow> int" where
  "float_to_int32 x = (if 0 \<le> x then \<lfloor>x\<rfloor> else \<lceil>x\<rceil>)"

definition unsupported_msg :: string where
  "unsupported_msg = ''Unsupported data type'' @ [CHR 0x0A]"

text \<open>Lines 424-431: \<open>data_type_size\<close> stays unassigned in the last branch.\<close>

definition ln_data_type_size :: "precision_t \<Rightarrow> u32 option" where
  "ln_data_type_size dt = (if dt = FP32 then Some 4 else if dt = FP16 then Some 2 else None)"

definition ln_size_trace :: "precision_t \<Rightarrow> event list" where
  "ln_size_trace dt = (if dt = FP32 then [] else if dt = FP16 then [] else [Printf unsupported_msg])"

text \<open>Lines 447-460: the scratchpad pointers; \<open>void *\<close> arithmetic counts bytes.\<close>

definition ln_local_itile :: "precision_t \<Rightarrow> tile_ptr" where
  "ln_local_itile dt = (if dt = FP32 then L1 0 else if dt = FP16 then L1 0 else Indeterminate)"

definition ln_tile_seq_len :: "layernorm_layer_t \<Rightarrow> u32" where
  "ln_tile_seq_len l = seq_len l div n_tiles l"

definition ln_local_otile :: "layernorm_layer_t \<Rightarrow> tile_ptr" where
  "ln_local_otile l =
     (case ln_data_type_size (dtype l) of
        None \<Rightarrow> Indeterminate
      | Some dts \<Rightarrow> L1 (0 + batch_size l * ln_tile_seq_len l * embeddings l * dts))"

definition ln_alloc_trace :: "precision_t \<Rightarrow> event list" where
  "ln_alloc_trace dt = (if dt = FP32 then [] else if dt = FP16 then [] else [Printf unsupported_msg])"

text \<open>Lines 488-503: the kernel dispatch of one tile.\<close>

definition ln_kernel_call :: "ln_kernel \<Rightarrow> layernorm_layer_t \<Rightarrow> event" where
  "ln_kernel_call k l =
     KernelCall k (ln_local_itile (dtype l)) (ln_local_otile l)
       (batch_size l) (ln_tile_seq_len l) (embeddings l) (float_to_int32 (eps l))"

definition layernorm_dispatch :: "layernorm_layer_t \<Rightarrow> event list" where
  "layernorm_dispatch l =
     (if baseline l = 1 then [ln_kernel_call Fp32Naive l]
      else if dtype l = FP32 then [ln_kernel_call Fp32Opt l]
      else if dtype l = FP16 then [ln_kernel_call Fp16Opt l]
      else [Printf unsupported_msg])"

text \<open>Lines 464-523: one iteration of the tile loop, as one core runs it.\<close>

definition ln_tile_trace :: "snrt \<Rightarrow> layernorm_layer_t \<Rightarrow> event list" where
  "ln_tile_trace c l =
     (if snrt_is_dm_core c then [DmaStart2d, DmaWaitAll, Mcycle] else [])
     @ [ClusterHwBarrier]
     @ (if snrt_is_compute_core c then [Mcycle] else [])
     @ layernorm_dispatch l
     @ (if snrt_is_compute_core c then [Mcycle] else [])
     @ [ClusterHwBarrier]
     @ (if snrt_is_dm_core c then [Mcycle, DmaStart2d, DmaWaitAll, Mcycle] else [])"

text \<open>
  Lines 423-526. The two integer divisions are undefined for a zero divisor: the model
  ends the run there with \<open>Fault\<close>.
\<close>

definition layernorm_layer_trace :: "snrt \<Rightarrow> layernorm_layer_t \<Rightarrow> event list" where
  "layernorm_layer_trace c l =
     ln_size_trace (dtype l) @ [Mcycle]
     @ (if cluster_num c = 0 \<or> n_tiles l = 0 then [Fault]
        else ln_alloc_trace (dtype l) @ [Mcycle]
          @ concat (replicate (unat (n_tiles l div cluster_num c)) (ln_tile_trace c l))
          @ [GlobalBarrier])"

definition kernel_calls :: "event list \<Rightarrow> event list" where
  "kernel_calls t = filter (\<lambda>e. case e of KernelCall k i ot b s m ep \<Rightarrow> True | _ \<Rightarrow> False) t"

definition called_kernels :: "event list \<Rightarrow> ln_kernel list" where
  "called_kernels t =
     concat (map (\<lambda>e. case e of KernelCall k i ot b s m ep \<Rightarrow> [k] | _ \<Rightarrow> []) t)"

definition call_tiles :: "event list \<Rightarrow> (tile_ptr \<times> tile_ptr) list" where
  "call_tiles t =
     concat (map (\<lambda>e. case e of KernelCall k i ot b s m ep \<Rightarrow> [(i, ot)] | _ \<Rightarrow> []) t)"

subsection \<open>FlashAttention-2: configuration, row partition, events\<close>

text \<open>
  The fields \<open>N\<close>, \<open>d\<close>, \<open>B_r\<close>, \<open>B_c\<close>, \<open>dtype\<close>, \<open>baseline\<close> of
  \<open>flashattention_2_layer_t\<close>, prefixed (the pointer fields are the memories of the
  data model below).
\<close>

record flashattention_2_layer_t =
  fa_N :: u32
  fa_d :: u32
  fa_B_r :: u32
  fa_B_c :: u32
  fa_dtype :: precision_t
  fa_baseline :: u32

text \<open>Lines 124-126, in \<open>uint32_t\<close> arithmetic; \<open>compute_id\<close> is the global core index.\<close>

definition rows_per_core :: "u32 \<Rightarrow> u32 \<Rightarrow> u32" where
  "rows_per_core B_r num_cores = B_r div num_cores"

definition start_row :: "u32 \<Rightarrow> u32 \<Rightarrow> u32 \<Rightarrow> u32" where
  "start_row B_r num_cores compute_id = rows_per_core B_r num_cores * compute_id"

definition end_row :: "u32 \<Rightarrow> u32 \<Rightarrow> u32 \<Rightarrow> u32" where
  "end_row B_r num_cores compute_id =
     start_row B_r num_cores compute_id + rows_per_core B_r num_cores"

text \<open>
  The loop \<open>for (int row_idx = start_row; row_idx < end_row; row_idx++)\<close> of lines 128,
  187 and 277: the comparison is unsigned, the subscript is the \<open>int\<close>.
\<close>

definition row_loop :: "u32 \<Rightarrow> u32 \<Rightarrow> nat list" where
  "row_loop s e = [unat s ..< unat e]"

definition row_indices :: "u32 \<Rightarrow> u32 \<Rightarrow> u32 \<Rightarrow> int list" where
  "row_indices B_r num_cores compute_id =
     map (\<lambda>r. sint (word_of_nat r :: u32))
       (row_loop (start_row B_r num_cores compute_id) (end_row B_r num_cores compute_id))"

text \<open>Lines 174-269: the two branches of the role split of one inner iteration.\<close>

definition fa_role_branch :: "snrt \<Rightarrow> flashattention_2_layer_t \<Rightarrow> event list" where
  "fa_role_branch c l =
     (if snrt_is_compute_core c
      then [Mcycle, ScStGemm, Mcycle, ClusterHwBarrier, SoftmaxRows, ClusterHwBarrier,
            ClusterHwBarrier]
           @ (if fa_baseline l \<noteq> 0 then [ScStGemm] else [TransposeKernel, ScStGemm])
           @ [Mcycle, ClusterHwBarrier]
      else [ClusterHwBarrier, ClusterHwBarrier, ClusterHwBarrier, ClusterHwBarrier])"

text \<open>Lines 141-270: one iteration of the column-tile loop.\<close>

definition fa_inner_trace :: "snrt \<Rightarrow> flashattention_2_layer_t \<Rightarrow> event list" where
  "fa_inner_trace c l =
     [ClusterHwBarrier, Mcycle]
     @ (if \<not> snrt_is_compute_core c then [DmaStart2d, DmaStart2d, DmaWaitAll] else [])
     @ [Mcycle, ClusterHwBarrier]
     @ fa_role_branch c l"

text \<open>Lines 103-306: one iteration of the row-tile loop.\<close>

definition fa_outer_trace :: "snrt \<Rightarrow> flashattention_2_layer_t \<Rightarrow> event list" where
  "fa_outer_trace c l =
     [Mcycle]
     @ (if snrt_is_dm_core c then [DmaStart2d, DmaWaitAll] else [])
     @ [Mcycle, ClusterHwBarrier]
     @ (if cluster_compute_core_num c = 0 then [Fault]
        else (if snrt_is_compute_core c then [StatsInit] else [])
          @ [ClusterHwBarrier, ClusterHwBarrier, Mcycle]
          @ loop_t (unat (fa_N l div fa_B_c l)) (fa_inner_trace c l)
          @ [ClusterHwBarrier]
          @ (if snrt_is_compute_core c then [Normalize] else [])
          @ [FpuFence, ClusterHwBarrier, ClusterHwBarrier, Mcycle]
          @ (if snrt_is_dm_core c then [DmaStart2d, DmaWaitAll] else [])
          @ [Mcycle])"

text \<open>Lines 43-310, as one core runs them.\<close>

definition flashattention_2_trace :: "snrt \<Rightarrow> flashattention_2_layer_t \<Rightarrow> event list" where
  "flashattention_2_trace c l =
     (if fa_B_r l = 0 \<or> fa_B_c l = 0 then [Fault]
      else then_t ([Mcycle] @ loop_t (unat (fa_N l div fa_B_r l)) (fa_outer_trace c l))
             [Mcycle, ClusterHwBarrier])"

subsection \<open>LayerNorm: the kernels on scratchpad memory\<close>

text \<open>
  A memory is a function from element index to value. The tile sizes index a scratchpad,
  so the \<open>uint32_t\<close> index expressions of the kernels are taken not to wrap and are
  written over \<open>nat\<close>. In HOL \<open>x / 0 = 0\<close> and \<open>sqrt\<close> of a negative number is defined,
  where the floating-point unit yields an infinity or a NaN: no property below depends
  on the value of such a term.
\<close>

type_synonym mem = "nat \<Rightarrow> real"

text \<open>Lines 70-76 (and 274-280): the mean of the row that starts at \<open>base\<close>.\<close>

definition ln_mean :: "mem \<Rightarrow> nat \<Rightarrow> nat \<Rightarrow> real" where
  "ln_mean x base E = fold (\<lambda>i mean. mean + x (base + i)) [0..<E] 0 / real E"

text \<open>Lines 78-84: the variable \<open>var\<close> after \<open>var = sqrtf(var + eps)\<close>, \<open>eps\<close> an \<open>int32_t\<close>.\<close>

definition ln_var :: "mem \<Rightarrow> nat \<Rightarrow> nat \<Rightarrow> int \<Rightarrow> real \<Rightarrow> real" where
  "ln_var x base E eps' mean =
     sqrt (fold (\<lambda>i var. var + (x (base + i) - mean) * (x (base + i) - mean)) [0..<E] 0 / real E
           + real_of_int eps')"

text \<open>Lines 70-91: one row, from the input tile \<open>x\<close> into the output tile \<open>y\<close>.\<close>

definition ln_row :: "int \<Rightarrow> nat \<Rightarrow> mem \<Rightarrow> nat \<Rightarrow> mem \<Rightarrow> mem" where
  "ln_row eps' E x base y =
     (let mean = ln_mean x base E;
          var = ln_var x base E eps' mean
      in fold (\<lambda>i y'. y'(base + i := (x (base + i) - mean) / var)) [0..<E] y)"

text \<open>Lines 45-97.\<close>

definition layernorm_fp32_naive ::
  "snrt \<Rightarrow> mem \<Rightarrow> mem \<Rightarrow> nat \<Rightarrow> nat \<Rightarrow> nat \<Rightarrow> int \<Rightarrow> mem" where
  "layernorm_fp32_naive c input output batch_size' seq_len' embeddings' eps' =
     (if snrt_is_compute_core c
      then let offset = unat (cluster_core_idx c) * embeddings';
               stride = unat (cluster_compute_core_num c) * embeddings';
               tile_seq_len = seq_len' div unat (cluster_compute_core_num c);
               batch_offset = seq_len' * embeddings'
           in fold (\<lambda>b y.
                fold (\<lambda>s y'. ln_row eps' embeddings' input (offset + (b * batch_offset + s * stride)) y')
                  [0..<tile_seq_len] y)
                [0..<batch_size'] output
      else output)"

text \<open>
  Lines 249-301: the same text over \<open>__fp16\<close> buffers (the accumulators are \<open>float\<close>);
  with exact arithmetic, the same function.
\<close>

definition layernorm_fp16_naive ::
  "snrt \<Rightarrow> mem \<Rightarrow> mem \<Rightarrow> nat \<Rightarrow> nat \<Rightarrow> nat \<Rightarrow> int \<Rightarrow> mem" where
  "layernorm_fp16_naive c input output batch_size' seq_len' embeddings' eps' =
     (if snrt_is_compute_core c
      then let offset = unat (cluster_core_idx c) * embeddings';
               stride = unat (cluster_compute_core_num c) * embeddings';
               tile_seq_len = seq_len' div unat (cluster_compute_core_num c);
               batch_offset = seq_len' * embeddings'
           in fold (\<lambda>b y.
                fold (\<lambda>s y'. ln_row eps' embeddings' input (offset + (b * batch_offset + s * stride)) y')
                  [0..<tile_seq_len] y)
                [0..<batch_size'] output
      else output)"

text \<open>
  Lines 99-247, \<open>layernorm_fp32_opt\<close>. The instruction semantics are those of the Snitch
  ISA, which is not part of the sources: \<open>vfsum.s rd, rs\<close> adds both lanes of \<open>rs\<close> to
  lane 0 of \<open>rd\<close>; \<open>frep.o r, n\<close> repeats the next \<open>n\<close> instructions \<open>r + 1\<close> times;
  a read of \<open>ft0\<close>/\<open>ft2\<close> pops the next 64-bit word (two floats) of a read stream, a
  write of \<open>ft1\<close> pushes one to the write stream. Per row the streams deliver the input
  row twice (dimension of bound 2 and stride 0) and accept the output row twice, in words
  \<open>8 * j + 2 * k\<close>, \<open>k < UNROLL = 4\<close>, \<open>j < n_frep = embeddings / 8\<close>.

  The four accumulators of the first block (lines 160-179).
\<close>

definition opt_lane_sum :: "(nat \<Rightarrow> real) \<Rightarrow> nat \<Rightarrow> nat \<Rightarrow> real" where
  "opt_lane_sum f n_frep k =
     fold (\<lambda>j acc. acc + (f (8 * j + 2 * k) + f (8 * j + 2 * k + 1))) [0..<n_frep] 0"

definition opt_sum :: "(nat \<Rightarrow> real) \<Rightarrow> nat \<Rightarrow> real" where
  "opt_sum f n_frep =
     (opt_lane_sum f n_frep 0 + opt_lane_sum f n_frep 1)
     + (opt_lane_sum f n_frep 2 + opt_lane_sum f n_frep 3)"

text \<open>
  Lines 148-241: one row. The second block stores \<open>x - mean\<close> to the output row, the
  third reads it back and stores the product with \<open>1 / sqrt (var / embeddings + eps)\<close>.
\<close>

definition fp32_opt_row :: "int \<Rightarrow> nat \<Rightarrow> mem \<Rightarrow> nat \<Rightarrow> mem \<Rightarrow> mem" where
  "fp32_opt_row eps' E x base y =
     (let n_frep = E div 8;
          mean_tot = opt_sum (\<lambda>i. x (base + i)) n_frep / real E;
          y1 = fold (\<lambda>i y'. y'(base + i := x (base + i) - mean_tot)) [0..<8 * n_frep] y;
          var_tot = opt_sum (\<lambda>i. (x (base + i) - mean_tot) * (x (base + i) - mean_tot)) n_frep
                      / real E + real_of_int eps';
          inv = 1 / sqrt var_tot
      in fold (\<lambda>i y'. y'(base + i := y1 (base + i) * inv)) [0..<8 * n_frep] y1)"

datatype ln_error =
    FrepCount
  | Reinterpreted
  | IndeterminatePointer
  | DivByZero

text \<open>
  \<open>n_frep - 1\<close> is the repetition register: for \<open>embeddings < 8\<close> it wraps to \<open>2^32 - 1\<close>
  and the streams run off the tile; the model stops there.
\<close>

definition layernorm_fp32_opt ::
  "snrt \<Rightarrow> mem \<Rightarrow> mem \<Rightarrow> nat \<Rightarrow> nat \<Rightarrow> nat \<Rightarrow> int \<Rightarrow> ln_error + mem" where
  "layernorm_fp32_opt c input output batch_size' seq_len' embeddings' eps' =
     (if snrt_is_compute_core c
      then let offset = unat (cluster_core_idx c) * embeddings';
               stride = unat (cluster_compute_core_num c) * embeddings';
               tile_seq_len = seq_len' div unat (cluster_compute_core_num c);
               batch_offset = seq_len' * embeddings'
           in if embeddings' div 8 = 0 \<and> 0 < batch_size' \<and> 0 < tile_seq_len then Inl FrepCount
              else Inr (fold (\<lambda>b y.
                     fold (\<lambda>s y'. fp32_opt_row eps' embeddings' input
                                     (offset + (b * batch_offset + s * stride)) y')
                       [0..<tile_seq_len] y)
                     [0..<batch_size'] output)
      else Inr output)"

text \<open>
  Lines 303-418, \<open>layernorm_fp16_opt\<close>: the only assembly block reads the stream \<open>ft0\<close>
  and leaves its result in \<open>mean_tot\<close>, which is dumped; the variance block is commented
  out, no instruction writes \<open>ft1\<close> and no C statement stores to \<open>core_otile\<close>. The body of
  the row loop has no effect on memory.
\<close>

definition layernorm_fp16_opt ::
  "snrt \<Rightarrow> mem \<Rightarrow> mem \<Rightarrow> nat \<Rightarrow> nat \<Rightarrow> nat \<Rightarrow> int \<Rightarrow> ln_error + mem" where
  "layernorm_fp16_opt c input output batch_size' seq_len' embeddings' eps' =
     (if snrt_is_compute_core c
      then let tile_seq_len = seq_len' div unat (cluster_compute_core_num c)
           in if embeddings' div 16 = 0 \<and> 0 < batch_size' \<and> 0 < tile_seq_len then Inl FrepCount
              else Inr (fold (\<lambda>b y. fold (\<lambda>s y'. y') [0..<tile_seq_len] y) [0..<batch_size'] output)
      else Inr output)"

subsection \<open>LayerNorm: \<open>layernorm_layer\<close> on the memory of one cluster\<close>

text \<open>
  Modelled from the spec: the strided 2D transfer primitive (\<open>snrt_dma_start_2d\<close> with
  \<open>snrt_dma_wait_all\<close>) copies \<open>repetitions\<close> chunks of \<open>size\<close> contiguous elements,
  advancing source and destination by their strides.
\<close>

definition dma_2d :: "mem \<Rightarrow> nat \<Rightarrow> mem \<Rightarrow> nat \<Rightarrow> nat \<Rightarrow> nat \<Rightarrow> nat \<Rightarrow> nat \<Rightarrow> mem" where
  "dma_2d dst dst_base src src_base size' dst_stride src_stride repetitions =
     fold (\<lambda>r m. fold (\<lambda>j m'. m'(dst_base + r * dst_stride + j := src (src_base + r * src_stride + j)))
                    [0..<size'] m)
          [0..<repetitions] dst"

text \<open>
  The state of a cluster during \<open>layernorm_layer\<close>: the two scratchpad tiles and the
  output feature map in main memory.
\<close>

record ln_state =
  local_itile :: mem
  local_otile :: mem
  ofmap :: mem

text \<open>
  Lines 486-503 for all the cores of the cluster, between the two barriers. The compute
  cores own disjoint rows of the output tile and only read the input tile.
\<close>

fun ln_cores :: "(snrt \<Rightarrow> mem \<Rightarrow> ln_error + mem) \<Rightarrow> snrt list \<Rightarrow> mem \<Rightarrow> ln_error + mem" where
  "ln_cores k [] y = Inr y"
| "ln_cores k (c # cs) y = (case k c y of Inl e \<Rightarrow> Inl e | Inr y' \<Rightarrow> ln_cores k cs y')"

definition ln_compute_tile :: "snrt list \<Rightarrow> layernorm_layer_t \<Rightarrow> mem \<Rightarrow> mem \<Rightarrow> ln_error + mem" where
  "ln_compute_tile cores l x y =
     (let B = unat (batch_size l); T = unat (ln_tile_seq_len l); E = unat (embeddings l);
          e = float_to_int32 (eps l)
      in if baseline l = 1
         then (if dtype l = FP32
               then ln_cores (\<lambda>c y'. Inr (layernorm_fp32_naive c x y' B T E e)) cores y
               else Inl Reinterpreted)
         else if dtype l = FP32 then ln_cores (\<lambda>c y'. layernorm_fp32_opt c x y' B T E e) cores y
         else if dtype l = FP16 then ln_cores (\<lambda>c y'. layernorm_fp16_opt c x y' B T E e) cores y
         else Inr y)"

text \<open>Lines 464-523: one tile: transfer in, compute, transfer out.\<close>

definition ln_tile :: "snrt list \<Rightarrow> layernorm_layer_t \<Rightarrow> mem \<Rightarrow> nat \<Rightarrow> ln_state \<Rightarrow> ln_error + ln_state" where
  "ln_tile cores l ifm tile_idx st =
     (let B = unat (batch_size l); T = unat (ln_tile_seq_len l); E = unat (embeddings l);
          S = unat (seq_len l);
          x = dma_2d (local_itile st) 0 ifm (tile_idx * (T * E)) (T * E) (T * E) (S * E) B
      in case ln_compute_tile cores l x (local_otile st) of
           Inl e \<Rightarrow> Inl e
         | Inr y \<Rightarrow>
             Inr \<lparr>local_itile = x, local_otile = y,
                  ofmap = dma_2d (ofmap st) (tile_idx * (T * E)) y 0 (T * E) (S * E) (T * E) B\<rparr>)"

fun ln_tiles :: "snrt list \<Rightarrow> layernorm_layer_t \<Rightarrow> mem \<Rightarrow> nat list \<Rightarrow> ln_state \<Rightarrow> ln_error + ln_state" where
  "ln_tiles cores l ifm [] st = Inr st"
| "ln_tiles cores l ifm (t # ts) st =
     (case ln_tile cores l ifm t st of Inl e \<Rightarrow> Inl e | Inr st' \<Rightarrow> ln_tiles cores l ifm ts st')"

text \<open>
  Lines 423-526 for the cluster \<open>cl\<close> of \<open>ncl\<close> clusters; the result is the output
  feature map. With a \<open>dtype\<close> other than \<open>FP32\<close> and \<open>FP16\<close> the element size and the
  tile pointers are indeterminate when the first transfer uses them. With \<open>FP16\<close> and
  \<open>baseline = 1\<close> the \<open>float\<close> kernel reads the half-precision tile byte-wise, which the
  element-indexed memory cannot express.
\<close>

definition layernorm_layer ::
  "snrt list \<Rightarrow> nat \<Rightarrow> nat \<Rightarrow> layernorm_layer_t \<Rightarrow> mem \<Rightarrow> ln_state \<Rightarrow> ln_error + mem" where
  "layernorm_layer cores cl ncl l ifm st =
     (if ncl = 0 \<or> n_tiles l = 0 then Inl DivByZero
      else let n_tiles_per_cluster = unat (n_tiles l) div ncl
           in if n_tiles_per_cluster = 0 then Inr (ofmap st)
              else if dtype l \<noteq> FP32 \<and> dtype l \<noteq> FP16 then Inl IndeterminatePointer
              else case ln_tiles cores l ifm
                          (map (\<lambda>i. cl * n_tiles_per_cluster + i) [0..<n_tiles_per_cluster]) st of
                     Inl e \<Rightarrow> Inl e
                   | Inr st' \<Rightarrow> Inr (ofmap st'))"

text \<open>
  Modelled from the spec: the cores of one cluster are the compute cores
  \<open>0 .. n - 1\<close> and one data mover, index \<open>n\<close>.
\<close>

definition cluster_core :: "nat \<Rightarrow> nat \<Rightarrow> nat \<Rightarrow> nat \<Rightarrow> snrt" where
  "cluster_core cl ncl n i =
     \<lparr>cluster_idx = of_nat cl, cluster_num = of_nat ncl, cluster_core_idx = of_nat i,
      cluster_compute_core_num = of_nat n, global_core_idx = of_nat (cl * (n + 1) + i)\<rparr>"

definition cluster_cores :: "nat \<Rightarrow> nat \<Rightarrow> nat \<Rightarrow> snrt list" where
  "cluster_cores cl ncl n = map (cluster_core cl ncl n) [0..<n + 1]"

text \<open>
  Following the spec's words (section 4.2, step 4): \<open>mean = \<Sum>x / embeddings\<close>,
  \<open>variance = \<Sum>(x - mean)\<^sup>2 / embeddings\<close>, \<open>out = (x - mean) / sqrt (variance + eps)\<close>,
  with the \<open>eps\<close> of the configuration record.
\<close>

definition spec_mean :: "real list \<Rightarrow> real" where
  "spec_mean xs = sum_list xs / real (length xs)"

definition spec_variance :: "real list \<Rightarrow> real" where
  "spec_variance xs = sum_list (map (\<lambda>x. (x - spec_mean xs)\<^sup>2) xs) / real (length xs)"

definition spec_layernorm_row :: "real \<Rightarrow> real list \<Rightarrow> real list" where
  "spec_layernorm_row eps' xs = map (\<lambda>x. (x - spec_mean xs) / sqrt (spec_variance xs + eps')) xs"

subsection \<open>FlashAttention-2: the kernel on the memory of one cluster\<close>

text \<open>
  The running maxima \<open>m_i\<close> and \<open>m_i_prev\<close> are \<open>-INFINITY\<close> or finite; all other values
  are finite. Where the source would produce an infinity or a NaN (a division by zero,
  the exponential of \<open>+\<infinity>\<close>) the model stops with \<open>FaNonFinite\<close>; an integer division by
  zero is \<open>FaDivByZero\<close>; a row subscript outside \<open>[0, B_r)\<close> is \<open>FaOutOfBounds\<close>.
\<close>

datatype fmax = NegInf | Fin real

datatype fa_error = FaDivByZero | FaOutOfBounds | FaNonFinite

text \<open>The test \<open>val > m_i[row_idx]\<close> of line 198.\<close>

fun gt_fmax :: "real \<Rightarrow> fmax \<Rightarrow> bool" where
  "gt_fmax v NegInf = True"
| "gt_fmax v (Fin m) = (m < v)"

text \<open>The order of the extended reals on the maxima.\<close>

fun fmax_le :: "fmax \<Rightarrow> fmax \<Rightarrow> bool" where
  "fmax_le NegInf b = True"
| "fmax_le (Fin a) NegInf = False"
| "fmax_le (Fin a) (Fin b) = (a \<le> b)"

text \<open>
  The scratchpad buffers of lines 79-97, the transposed tile of line 245 (allocated anew
  in every iteration; its old contents are never read), and the output tensor.
\<close>

record fa_tcdm =
  Q_fa :: mem
  K_fa :: mem
  V_fa :: mem
  S_fa :: mem
  P_fa :: mem
  O_fa :: mem
  m_i :: "nat \<Rightarrow> fmax"
  m_i_prev :: "nat \<Rightarrow> fmax"
  l_i :: mem
  V_t :: mem
  O_l3 :: mem

text \<open>
  A subscript \<open>row_idx * ld + col_idx\<close> with \<open>int\<close> indices and a \<open>uint32_t\<close> leading
  dimension: unsigned 32-bit arithmetic.
\<close>

definition idx32 :: "nat \<Rightarrow> u32 \<Rightarrow> nat \<Rightarrow> nat" where
  "idx32 row ld col = unat (of_nat row * ld + of_nat col :: u32)"

text \<open>
  Modelled from the spec: the dense GEMM primitive of \<open>blas.h\<close> computes
  \<open>C = alpha \<cdot> op(A) \<cdot> op(B) + beta \<cdot> C\<close> on row-major operands with leading dimensions,
  \<open>beta = 0\<close> overwriting \<open>C\<close>; the transpose primitive produces \<open>dst = src\<^sup>T\<close>.
\<close>

definition gemm ::
  "bool \<Rightarrow> bool \<Rightarrow> nat \<Rightarrow> nat \<Rightarrow> nat \<Rightarrow> real \<Rightarrow> mem \<Rightarrow> nat \<Rightarrow> mem \<Rightarrow> nat \<Rightarrow> real \<Rightarrow> mem \<Rightarrow> nat \<Rightarrow> mem" where
  "gemm transa transb m n k alpha A lda B ldb beta C ldc =
     fold (\<lambda>i C'. fold (\<lambda>j C''. C''(i * ldc + j :=
             alpha * sum_list (map (\<lambda>p. (if transa then A (p * lda + i) else A (i * lda + p))
                                       * (if transb then B (j * ldb + p) else B (p * ldb + j)))
                                [0..<k])
             + (if beta = 0 then 0 else beta * C (i * ldc + j))))
           [0..<n] C') [0..<m] C"

definition transpose_kernel :: "mem \<Rightarrow> mem \<Rightarrow> nat \<Rightarrow> nat \<Rightarrow> mem" where
  "transpose_kernel src dst rows cols =
     fold (\<lambda>i D. fold (\<lambda>j D'. D'(j * rows + i := src (i * cols + j))) [0..<cols] D) [0..<rows] dst"

text \<open>A loop over rows whose body may stop the run.\<close>

fun fa_rows :: "(nat \<Rightarrow> fa_tcdm \<Rightarrow> fa_error + fa_tcdm) \<Rightarrow> nat list \<Rightarrow> fa_tcdm \<Rightarrow> fa_error + fa_tcdm" where
  "fa_rows f [] st = Inr st"
| "fa_rows f (r # rs) st = (case f r st of Inl e \<Rightarrow> Inl e | Inr st' \<Rightarrow> fa_rows f rs st')"

text \<open>
  The row loop of one compute core (lines 124-128, 187, 277): its rows come from the
  global core index; the subscript is an \<open>int\<close> and must lie in the buffers of \<open>B_r\<close> rows.
\<close>

definition fa_core_rows ::
  "u32 \<Rightarrow> u32 \<Rightarrow> (nat \<Rightarrow> fa_tcdm \<Rightarrow> fa_error + fa_tcdm) \<Rightarrow> u32 \<Rightarrow> fa_tcdm \<Rightarrow> fa_error + fa_tcdm" where
  "fa_core_rows B_r num_cores f compute_id st =
     (let rows = row_loop (start_row B_r num_cores compute_id) (end_row B_r num_cores compute_id)
      in if list_all (\<lambda>r. r < unat B_r \<and> r < 2 ^ 31) rows then fa_rows f rows st
         else Inl FaOutOfBounds)"

text \<open>
  A compute phase between two barriers: the compute cores of the cluster, given by their
  global indices, one after the other (their rows are disjoint).
\<close>

fun fa_cores :: "(u32 \<Rightarrow> fa_tcdm \<Rightarrow> fa_error + fa_tcdm) \<Rightarrow> u32 list \<Rightarrow> fa_tcdm \<Rightarrow> fa_error + fa_tcdm" where
  "fa_cores f [] st = Inr st"
| "fa_cores f (c # cs) st = (case f c st of Inl e \<Rightarrow> Inl e | Inr st' \<Rightarrow> fa_cores f cs st')"

text \<open>Lines 129-131.\<close>

definition fa_init_row :: "nat \<Rightarrow> fa_tcdm \<Rightarrow> fa_error + fa_tcdm" where
  "fa_init_row row st =
     Inr (st\<lparr>m_i := (m_i st)(row := NegInf), m_i_prev := (m_i_prev st)(row := NegInf),
             l_i := (l_i st)(row := 0)\<rparr>)"

text \<open>Lines 196-199: the running maximum of a row after the scan of the \<open>B_c\<close> columns.\<close>

definition fa_row_max :: "mem \<Rightarrow> u32 \<Rightarrow> nat \<Rightarrow> fmax \<Rightarrow> fmax" where
  "fa_row_max S B_c row m =
     fold (\<lambda>col m'. let val = S (idx32 row B_c col) in if gt_fmax val m' then Fin val else m')
       [0..<unat B_c] m"

text \<open>Lines 202-206: the row of \<open>P\<close> and \<open>row_sum\<close>.\<close>

definition fa_row_exp :: "mem \<Rightarrow> u32 \<Rightarrow> nat \<Rightarrow> real \<Rightarrow> mem \<Rightarrow> mem \<times> real" where
  "fa_row_exp S B_c row m P =
     fold (\<lambda>col (P', row_sum).
             let P'' = P'(idx32 row B_c col := exp (S (idx32 row B_c col) - m))
             in (P'', row_sum + P'' (idx32 row B_c col)))
       [0..<unat B_c] (P, 0)"

text \<open>
  Lines 188-222 for one row. With a maximum still \<open>-INFINITY\<close> after the scan (no
  column: \<open>B_c = 0\<close>), \<open>shifted_exp\<close> is a NaN, which only the first column tile does
  not use. With \<open>m_i_prev = -INFINITY\<close> and a finite maximum \<open>shifted_exp\<close> is \<open>0\<close>, and
  line 220 divides by it.
\<close>

definition fa_softmax_row :: "nat \<Rightarrow> u32 \<Rightarrow> u32 \<Rightarrow> nat \<Rightarrow> fa_tcdm \<Rightarrow> fa_error + fa_tcdm" where
  "fa_softmax_row t_c B_c d row st =
     (let prev = m_i st row;
          st1 = st\<lparr>m_i_prev := (m_i_prev st)(row := prev)\<rparr>
      in case fa_row_max (S_fa st1) B_c row prev of
           NegInf \<Rightarrow>
             if t_c \<noteq> 0 then Inl FaNonFinite
             else Inr (st1\<lparr>l_i := (l_i st1)(row := 0)\<rparr>)
         | Fin m \<Rightarrow>
             let (P, row_sum) = fa_row_exp (S_fa st1) B_c row m (P_fa st1);
                 shifted_exp = (case prev of NegInf \<Rightarrow> 0 | Fin mp \<Rightarrow> exp (mp - m))
             in if t_c \<noteq> 0
                then if shifted_exp = 0 \<and> 0 < unat d then Inl FaNonFinite
                     else Inr (st1\<lparr>m_i := (m_i st1)(row := Fin m), P_fa := P,
                                   l_i := (l_i st1)(row := l_i st1 row * shifted_exp + row_sum),
                                   O_fa := fold (\<lambda>col Om. Om(idx32 row d col := Om (idx32 row d col) / shifted_exp))
                                             [0..<unat d] (O_fa st1)\<rparr>)
                else Inr (st1\<lparr>m_i := (m_i st1)(row := Fin m), P_fa := P,
                              l_i := (l_i st1)(row := row_sum)\<rparr>))"

text \<open>Lines 277-281 for one row: the division by \<open>l_i\<close>.\<close>

definition fa_normalize_row :: "u32 \<Rightarrow> nat \<Rightarrow> fa_tcdm \<Rightarrow> fa_error + fa_tcdm" where
  "fa_normalize_row d row st =
     (if l_i st row = 0 \<and> 0 < unat d then Inl FaNonFinite
      else Inr (st\<lparr>O_fa := fold (\<lambda>col Om. Om(idx32 row d col := Om (idx32 row d col) / l_i st row))
                               [0..<unat d] (O_fa st)\<rparr>))"

text \<open>
  The configuration of the cluster: \<open>num_cores\<close> is \<open>snrt_cluster_compute_core_num()\<close>,
  \<open>ids\<close> are the global core indices of its compute cores.

  Lines 104-135: transfer of the \<open>Q\<close> row block, then the statistics.
\<close>

definition fa_load_Q :: "flashattention_2_layer_t \<Rightarrow> mem \<Rightarrow> nat \<Rightarrow> fa_tcdm \<Rightarrow> fa_tcdm" where
  "fa_load_Q l Q_l3 t_r st =
     st\<lparr>Q_fa := dma_2d (Q_fa st) 0 Q_l3 (unat (of_nat t_r * fa_B_r l * fa_d l))
                  (unat (fa_d l)) (unat (fa_d l)) (unat (fa_d l)) (unat (fa_B_r l))\<rparr>"

definition fa_init_stats :: "u32 \<Rightarrow> u32 list \<Rightarrow> flashattention_2_layer_t \<Rightarrow> fa_tcdm \<Rightarrow> fa_error + fa_tcdm" where
  "fa_init_stats num_cores ids l st =
     (if num_cores = 0 then Inl FaDivByZero
      else fa_cores (fa_core_rows (fa_B_r l) num_cores fa_init_row) ids st)"

text \<open>Lines 141-270: one column tile.\<close>

definition fa_inner ::
  "u32 \<Rightarrow> u32 list \<Rightarrow> flashattention_2_layer_t \<Rightarrow> mem \<Rightarrow> mem \<Rightarrow> nat \<Rightarrow> fa_tcdm \<Rightarrow> fa_error + fa_tcdm" where
  "fa_inner num_cores ids l K_l3 V_l3 t_c st =
     (let B_r = unat (fa_B_r l); B_c = unat (fa_B_c l); d = unat (fa_d l);
          k_fa_offset = unat (of_nat t_c * fa_B_c l * fa_d l);
          st1 = st\<lparr>K_fa := dma_2d (K_fa st) 0 K_l3 k_fa_offset d d d B_c,
                    V_fa := dma_2d (V_fa st) 0 V_l3 k_fa_offset d d d B_c\<rparr>;
          st2 = st1\<lparr>S_fa := gemm False True B_r B_c d 1 (Q_fa st1) d (K_fa st1) d 0 (S_fa st1) B_c\<rparr>
      in case fa_cores (fa_core_rows (fa_B_r l) num_cores (fa_softmax_row t_c (fa_B_c l) (fa_d l)))
                ids st2 of
           Inl e \<Rightarrow> Inl e
         | Inr st3 \<Rightarrow>
             let beta = (if t_c = 0 then 0 else 1)
             in if fa_baseline l \<noteq> 0
                then Inr (st3\<lparr>O_fa := gemm False False B_r d B_c 1 (P_fa st3) B_c (V_fa st3) d
                                         beta (O_fa st3) d\<rparr>)
                else let Vt = transpose_kernel (V_fa st3) (V_t st3) B_c d
                     in Inr (st3\<lparr>V_t := Vt,
                                  O_fa := gemm False True B_r d B_c 1 (P_fa st3) B_c Vt B_c
                                            beta (O_fa st3) d\<rparr>))"

fun fa_inner_loop ::
  "u32 \<Rightarrow> u32 list \<Rightarrow> flashattention_2_layer_t \<Rightarrow> mem \<Rightarrow> mem \<Rightarrow> nat list \<Rightarrow> fa_tcdm \<Rightarrow> fa_error + fa_tcdm" where
  "fa_inner_loop num_cores ids l K_l3 V_l3 [] st = Inr st"
| "fa_inner_loop num_cores ids l K_l3 V_l3 (t_c # ts) st =
     (case fa_inner num_cores ids l K_l3 V_l3 t_c st of
        Inl e \<Rightarrow> Inl e
      | Inr st' \<Rightarrow> fa_inner_loop num_cores ids l K_l3 V_l3 ts st')"

text \<open>
  The state of the row block \<open>t_r\<close> after the column tiles \<open>0 .. n - 1\<close>: transfer of
  \<open>Q\<close>, reset of the statistics, then the inner loop (lines 103-270).
\<close>

definition fa_after_tiles ::
  "u32 \<Rightarrow> u32 list \<Rightarrow> flashattention_2_layer_t \<Rightarrow> mem \<Rightarrow> mem \<Rightarrow> mem \<Rightarrow> nat \<Rightarrow> nat \<Rightarrow> fa_tcdm \<Rightarrow> fa_error + fa_tcdm" where
  "fa_after_tiles num_cores ids l Q_l3 K_l3 V_l3 t_r n st =
     (case fa_init_stats num_cores ids l (fa_load_Q l Q_l3 t_r st) of
        Inl e \<Rightarrow> Inl e
      | Inr st' \<Rightarrow> fa_inner_loop num_cores ids l K_l3 V_l3 [0..<n] st')"

text \<open>Lines 272-304: the final division and the write-back of the row block.\<close>

definition fa_finish :: "u32 \<Rightarrow> u32 list \<Rightarrow> flashattention_2_layer_t \<Rightarrow> nat \<Rightarrow> fa_tcdm \<Rightarrow> fa_error + fa_tcdm" where
  "fa_finish num_cores ids l t_r st =
     (case fa_cores (fa_core_rows (fa_B_r l) num_cores (fa_normalize_row (fa_d l))) ids st of
        Inl e \<Rightarrow> Inl e
      | Inr st' \<Rightarrow>
          Inr (st'\<lparr>O_l3 := dma_2d (O_l3 st') (unat (of_nat t_r * fa_B_r l * fa_d l)) (O_fa st') 0
                              (unat (fa_d l)) (unat (fa_d l)) (unat (fa_d l)) (unat (fa_B_r l))\<rparr>))"

text \<open>Lines 103-306: one row block.\<close>

definition fa_outer ::
  "u32 \<Rightarrow> u32 list \<Rightarrow> flashattention_2_layer_t \<Rightarrow> mem \<Rightarrow> mem \<Rightarrow> mem \<Rightarrow> nat \<Rightarrow> fa_tcdm \<Rightarrow> fa_error + fa_tcdm" where
  "fa_outer num_cores ids l Q_l3 K_l3 V_l3 t_r st =
     (case fa_after_tiles num_cores ids l Q_l3 K_l3 V_l3 t_r (unat (fa_N l div fa_B_c l)) st of
        Inl e \<Rightarrow> Inl e
      | Inr st' \<Rightarrow> fa_finish num_cores ids l t_r st')"

fun fa_outer_loop ::
  "u32 \<Rightarrow> u32 list \<Rightarrow> flashattention_2_layer_t \<Rightarrow> mem \<Rightarrow> mem \<Rightarrow> mem \<Rightarrow> nat list \<Rightarrow> fa_tcdm \<Rightarrow> fa_error + fa_tcdm" where
  "fa_outer_loop num_cores ids l Q_l3 K_l3 V_l3 [] st = Inr st"
| "fa_outer_loop num_cores ids l Q_l3 K_l3 V_l3 (t_r # ts) st =
     (case fa_outer num_cores ids l Q_l3 K_l3 V_l3 t_r st of
        Inl e \<Rightarrow> Inl e
      | Inr st' \<Rightarrow> fa_outer_loop num_cores ids l Q_l3 K_l3 V_l3 ts st')"

text \<open>Lines 43-310; the result is the output tensor \<open>O\<close>.\<close>

definition flashattention_2_layer ::
  "u32 \<Rightarrow> u32 list \<Rightarrow> flashattention_2_layer_t \<Rightarrow> mem \<Rightarrow> mem \<Rightarrow> mem \<Rightarrow> fa_tcdm \<Rightarrow> fa_error + mem" where
  "flashattention_2_layer num_cores ids l Q_l3 K_l3 V_l3 st =
     (if fa_B_r l = 0 \<or> fa_B_c l = 0 then Inl FaDivByZero
      else case fa_outer_loop num_cores ids l Q_l3 K_l3 V_l3 [0..<unat (fa_N l div fa_B_r l)] st of
             Inl e \<Rightarrow> Inl e
           | Inr st' \<Rightarrow> Inr (O_l3 st'))"

text \<open>
  Following the spec's words (sections 4.1 and 8): the direct, non-tiled reference
  \<open>softmax(Q K\<^sup>T) \<cdot> V\<close> without the \<open>1/sqrt(d)\<close> factor, element \<open>(i, j)\<close>; and the same
  weighted sum restricted to the first \<open>n\<close> columns of the score matrix.
\<close>

definition score :: "mem \<Rightarrow> mem \<Rightarrow> nat \<Rightarrow> nat \<Rightarrow> nat \<Rightarrow> real" where
  "score Q K d i c = (\<Sum>p<d. Q (i * d + p) * K (c * d + p))"

definition softmax_prefix :: "mem \<Rightarrow> mem \<Rightarrow> mem \<Rightarrow> nat \<Rightarrow> nat \<Rightarrow> nat \<Rightarrow> nat \<Rightarrow> real" where
  "softmax_prefix Q K V d n i j =
     (\<Sum>c<n. exp (score Q K d i c) * V (c * d + j)) / (\<Sum>c<n. exp (score Q K d i c))"

definition attention_reference :: "mem \<Rightarrow> mem \<Rightarrow> mem \<Rightarrow> nat \<Rightarrow> nat \<Rightarrow> nat \<Rightarrow> nat \<Rightarrow> real" where
  "attention_reference Q K V N d i j = softmax_prefix Q K V d N i j"

subsection \<open>Concrete cores and configurations\<close>

definition core0 :: snrt where
  "core0 = \<lparr>cluster_idx = 0, cluster_num = 1, cluster_core_idx = 0,
            cluster_compute_core_num = 1, global_core_idx = 0\<rparr>"

definition core1 :: snrt where
  "core1 = \<lparr>cluster_idx = 0, cluster_num = 1, cluster_core_idx = 1,
            cluster_compute_core_num = 1, global_core_idx = 1\<rparr>"

definition fa_cfg0 :: flashattention_2_layer_t where
  "fa_cfg0 = \<lparr>fa_N = 2, fa_d = 1, fa_B_r = 2, fa_B_c = 1, fa_dtype = FP32, fa_baseline = 1\<rparr>"

definition ln_cfg_fp16_baseline :: layernorm_layer_t where
  "ln_cfg_fp16_baseline =
     \<lparr>batch_size = 2, seq_len = 8, embeddings = 16, n_tiles = 2, baseline = 1,
      eps = 1 / 100000, dtype = FP16\<rparr>"

definition ln_cfg_fp64 :: layernorm_layer_t where
  "ln_cfg_fp64 =
     \<lparr>batch_size = 2, seq_len = 8, embeddings = 16, n_tiles = 2, baseline = 0,
      eps = 1 / 100000, dtype = FP64\<rparr>"

definition core_a :: snrt where
  "core_a = \<lparr>cluster_idx = 0, cluster_num = 1, cluster_core_idx = 1,
             cluster_compute_core_num = 4, global_core_idx = 1\<rparr>"

definition core_b :: snrt where
  "core_b = \<lparr>cluster_idx = 1, cluster_num = 2, cluster_core_idx = 0,
             cluster_compute_core_num = 4, global_core_idx = 5\<rparr>"

definition zero_state :: ln_state where
  "zero_state = \<lparr>local_itile = (\<lambda>a. 0), local_otile = (\<lambda>a. 0), ofmap = (\<lambda>a. 0)\<rparr>"

text \<open>A feature map whose rows are \<open>0, 2, 0, 2, \<dots>\<close>: mean 1 and variance 1.\<close>

definition rows02 :: mem where
  "rows02 = (\<lambda>a. if odd a then 2 else 0)"

definition ln_cfg_tiles :: layernorm_layer_t where
  "ln_cfg_tiles = \<lparr>batch_size = 1, seq_len = 2, embeddings = 2, n_tiles = 1, baseline = 1,
                   eps = 1 / 100000, dtype = FP32\<rparr>"

definition ln_cfg_eps :: layernorm_layer_t where
  "ln_cfg_eps = \<lparr>batch_size = 1, seq_len = 1, embeddings = 2, n_tiles = 1, baseline = 1,
                 eps = 1 / 2, dtype = FP32\<rparr>"

definition ln_cfg_fp16 :: layernorm_layer_t where
  "ln_cfg_fp16 = \<lparr>batch_size = 1, seq_len = 1, embeddings = 16, n_tiles = 1, baseline = 0,
                  eps = 1 / 100000, dtype = FP16\<rparr>"

text \<open>The cores of a single cluster with one and with two compute cores.\<close>

definition cluster1 :: "snrt list" where
  "cluster1 = cluster_cores 0 1 1"

definition cluster2 :: "snrt list" where
  "cluster2 = cluster_cores 0 1 2"

text \<open>
  Tensors with one column (\<open>d = 1\<close>): every query is 1, the keys are \<open>0, 1, 0, \<dots>\<close>, the
  values \<open>1, 0, 0, \<dots>\<close>; the scores of a row are \<open>0, 1, 0, \<dots>\<close>.
\<close>

definition Q_ones :: mem where
  "Q_ones = (\<lambda>a. 1)"

definition K_01 :: mem where
  "K_01 = (\<lambda>a. if a = 1 then 1 else 0)"

definition V_10 :: mem where
  "V_10 = (\<lambda>a. if a = 0 then 1 else 0)"

definition tcdm0 :: fa_tcdm where
  "tcdm0 = \<lparr>Q_fa = (\<lambda>a. 0), K_fa = (\<lambda>a. 0), V_fa = (\<lambda>a. 0), S_fa = (\<lambda>a. 0), P_fa = (\<lambda>a. 0),
            O_fa = (\<lambda>a. 0), m_i = (\<lambda>a. NegInf), m_i_prev = (\<lambda>a. NegInf), l_i = (\<lambda>a. 0),
            V_t = (\<lambda>a. 0), O_l3 = (\<lambda>a. 0)\<rparr>"

definition fa_cfg3 :: flashattention_2_layer_t where
  "fa_cfg3 = \<lparr>fa_N = 3, fa_d = 1, fa_B_r = 1, fa_B_c = 1, fa_dtype = FP32, fa_baseline = 1\<rparr>"

definition fa_cfg0_opt :: flashattention_2_layer_t where
  "fa_cfg0_opt = \<lparr>fa_N = 2, fa_d = 1, fa_B_r = 2, fa_B_c = 1, fa_dtype = FP32, fa_baseline = 0\<rparr>"

subsection \<open>Auxiliary notions of the proofs\<close>

text \<open>The value that \<open>ln_row\<close> stores in element \<open>i\<close> of the row that starts at \<open>base\<close>.\<close>

definition ln_norm :: "int \<Rightarrow> nat \<Rightarrow> mem \<Rightarrow> nat \<Rightarrow> nat \<Rightarrow> real" where
  "ln_norm e E x base i =
     (x (base + i) - ln_mean x base E) / ln_var x base E e (ln_mean x base E)"

text \<open>The rows of a tile that the compute core \<open>idx\<close> of \<open>n\<close> visits, in order.\<close>

definition core_rows :: "nat \<Rightarrow> nat \<Rightarrow> nat \<Rightarrow> nat \<Rightarrow> nat list" where
  "core_rows idx n B T =
     concat (map (\<lambda>b. map (\<lambda>s. idx + (b * T + s * n)) [0..<T div n]) [0..<B])"

text \<open>
  The elements of the feature map that tile \<open>t\<close> covers: batch \<open>b\<close>, row
  \<open>t * T + s\<close> of the sequence, element \<open>i\<close>.
\<close>

definition tile_cells :: "nat \<Rightarrow> nat \<Rightarrow> nat \<Rightarrow> nat \<Rightarrow> nat \<Rightarrow> nat set" where
  "tile_cells B S T E t = {a. \<exists>b<B. \<exists>s<T. \<exists>i<E. a = (b * S + (t * T + s)) * E + i}"

text \<open>No running maximum of the second state is below that of the first.\<close>

definition m_mono :: "fa_tcdm \<Rightarrow> fa_tcdm \<Rightarrow> bool" where
  "m_mono st st' = (\<forall>r. fmax_le (m_i st r) (m_i st' r))"

text \<open>The statistics of the rows in \<open>R\<close> hold their initial values.\<close>

definition reset_on :: "nat set \<Rightarrow> fa_tcdm \<Rightarrow> bool" where
  "reset_on R st = (\<forall>r. r \<in> R \<longrightarrow> m_i st r = NegInf \<and> m_i_prev st r = NegInf \<and> l_i st r = 0)"

text \<open>The running maxima of the rows in \<open>R\<close> are finite.\<close>

definition fin_on :: "nat set \<Rightarrow> fa_tcdm \<Rightarrow> bool" where
  "fin_on R st = (\<forall>r. r \<in> R \<longrightarrow> m_i st r \<noteq> NegInf)"

section \<open>Properties of the event sequences\<close>

lemma barriers_append: "barriers (a @ b) = barriers a + barriers b"
  by (simp add: barriers_def)

lemma barriers_Cons:
  "barriers (e # t) = (if e = ClusterHwBarrier then Suc (barriers t) else barriers t)"
  by (simp add: barriers_def)

lemma barriers_Nil: "barriers [] = 0"
  by (simp add: barriers_def)

lemma barriers_role_branch: "barriers (fa_role_branch c l) = 4"
  by (simp add: fa_role_branch_def barriers_append barriers_Cons barriers_Nil)

lemma barriers_inner: "barriers (fa_inner_trace c l) = 6"
  by (simp add: fa_inner_trace_def barriers_append barriers_Cons barriers_Nil barriers_role_branch)

lemma inner_no_fault: "Fault \<notin> set (fa_inner_trace c l)"
  by (simp add: fa_inner_trace_def fa_role_branch_def)

lemma loop_no_fault: "Fault \<notin> set body \<Longrightarrow> loop_t n body = concat (replicate n body)"
proof (induction n)
  case 0 show ?case by simp
next
  case (Suc n) then show ?case by (simp add: then_t_def)
qed

lemma barriers_concat_replicate: "barriers (concat (replicate n body)) = n * barriers body"
  by (induction n) (simp_all add: barriers_append barriers_Nil)

lemma fault_concat_replicate: "Fault \<notin> set body \<Longrightarrow> Fault \<notin> set (concat (replicate n body))"
  by (induction n) simp_all

lemma barriers_inner_loop: "barriers (loop_t n (fa_inner_trace c l)) = 6 * n"
  by (simp add: loop_no_fault [OF inner_no_fault] barriers_concat_replicate barriers_inner)

lemma barriers_outer:
  "barriers (fa_outer_trace c l) =
     (if cluster_compute_core_num c = 0 then 1 else 6 + 6 * unat (fa_N l div fa_B_c l))"
  by (simp add: fa_outer_trace_def barriers_append barriers_Cons barriers_Nil barriers_inner_loop)

lemma fault_outer:
  "Fault \<in> set (fa_outer_trace c l) \<longleftrightarrow> cluster_compute_core_num c = 0"
  by (simp add: fa_outer_trace_def loop_no_fault [OF inner_no_fault]
        fault_concat_replicate [OF inner_no_fault] inner_no_fault)

lemma loop_t_fault: "Fault \<in> set body \<Longrightarrow> loop_t n body = (if n = 0 then [] else body)"
  by (cases n) (simp_all add: then_t_def)

lemma barriers_trace:
  "barriers (flashattention_2_trace c l) =
     (if fa_B_r l = 0 \<or> fa_B_c l = 0 then 0
      else if cluster_compute_core_num c = 0
           then (if unat (fa_N l div fa_B_r l) = 0 then 1 else 1)
      else unat (fa_N l div fa_B_r l) * (6 + 6 * unat (fa_N l div fa_B_c l)) + 1)"
proof (cases "cluster_compute_core_num c = 0")
  case True
  then have f: "Fault \<in> set (fa_outer_trace c l)" by (simp add: fault_outer)
  show ?thesis
    using True
    by (simp add: flashattention_2_trace_def loop_t_fault [OF f] then_t_def f
        barriers_append barriers_Cons barriers_Nil barriers_outer)
next
  case False
  then have f: "Fault \<notin> set (fa_outer_trace c l)" by (simp add: fault_outer)
  show ?thesis
    using False
    by (simp add: flashattention_2_trace_def loop_no_fault [OF f] then_t_def
        fault_concat_replicate [OF f] f
        barriers_append barriers_Cons barriers_Nil barriers_outer barriers_concat_replicate)
qed

lemma to_barrier_Nil_iff: "to_barrier t = [] \<longleftrightarrow> barriers t = 0"
  by (induction t) (auto simp: to_barrier_def barriers_def)

lemma barriers_tl_to_barrier: "barriers (tl (to_barrier t)) = barriers t - 1"
  by (induction t) (auto simp: to_barrier_def barriers_def)

lemma cluster_run_same_count:
  "\<forall>t\<in>set ts. barriers t = n \<Longrightarrow> cluster_run ts"
proof (induction n arbitrary: ts)
  case 0
  then have "list_all (\<lambda>t. to_barrier t = []) ts"
    by (simp add: list_all_iff to_barrier_Nil_iff)
  then show ?case by (subst cluster_run.simps) simp
next
  case (Suc n)
  have w: "list_all (\<lambda>t. to_barrier t \<noteq> []) ts"
    using Suc.prems by (simp add: list_all_iff to_barrier_Nil_iff)
  have "\<forall>t\<in>set (map (\<lambda>t. tl (to_barrier t)) ts). barriers t = n"
    using Suc.prems by (simp add: barriers_tl_to_barrier)
  then have "cluster_run (map (\<lambda>t. tl (to_barrier t)) ts)"
    by (rule Suc.IH)
  then show ?case using w by (subst cluster_run.simps) simp
qed

text \<open>
  Claim C4 (barrier-count parity). For the cores of one cluster (they agree on the number
  of compute cores) and every configuration: in each iteration of the column-tile loop
  every core, compute or data mover, executes four barrier calls inside the role split
  and six in all (two are shared); over the whole kernel any two cores execute the same
  number of barrier calls; and the rendezvous run of all the cores together ends with
  every core finished, never with a core left waiting at a barrier.
\<close>

theorem fa_barrier_parity:
  assumes "\<forall>c\<in>set cs. cluster_compute_core_num c = n"
  shows "(\<forall>c\<in>set cs. barriers (fa_role_branch c l) = 4 \<and> barriers (fa_inner_trace c l) = 6)
       \<and> (\<forall>c1\<in>set cs. \<forall>c2\<in>set cs.
             barriers (flashattention_2_trace c1 l) = barriers (flashattention_2_trace c2 l))
       \<and> cluster_run (map (\<lambda>c. flashattention_2_trace c l) cs)"
proof -
  have eq: "barriers (flashattention_2_trace c1 l) = barriers (flashattention_2_trace c2 l)"
    if "c1 \<in> set cs" "c2 \<in> set cs" for c1 c2
    using that assms by (simp add: barriers_trace)
  have "cluster_run (map (\<lambda>c. flashattention_2_trace c l) cs)"
  proof (cases cs)
    case Nil
    then show ?thesis by (subst cluster_run.simps) simp
  next
    case (Cons c0 cs')
    have "\<forall>t\<in>set (map (\<lambda>c. flashattention_2_trace c l) cs).
            barriers t = barriers (flashattention_2_trace c0 l)"
      using eq Cons by auto
    then show ?thesis by (rule cluster_run_same_count)
  qed
  moreover have "\<forall>c1\<in>set cs. \<forall>c2\<in>set cs.
      barriers (flashattention_2_trace c1 l) = barriers (flashattention_2_trace c2 l)"
    using eq by blast
  moreover have "\<forall>c\<in>set cs. barriers (fa_role_branch c l) = 4 \<and> barriers (fa_inner_trace c l) = 6"
    by (simp add: barriers_role_branch barriers_inner)
  ultimately show ?thesis by blast
qed

text \<open>A rendezvous with unequal barrier counts is stuck, so the property is not empty.\<close>

lemma cluster_run_mismatch: "\<not> cluster_run [[ClusterHwBarrier], []]"
  by (subst cluster_run.simps) (simp add: to_barrier_def)

theorem fa_barrier_parity_witness:
  "snrt_is_compute_core core0 \<and> snrt_is_dm_core core1
   \<and> barriers (fa_inner_trace core0 fa_cfg0) = 6 \<and> barriers (fa_inner_trace core1 fa_cfg0) = 6
   \<and> barriers (flashattention_2_trace core0 fa_cfg0) = barriers (flashattention_2_trace core1 fa_cfg0)
   \<and> cluster_run [flashattention_2_trace core0 fa_cfg0, flashattention_2_trace core1 fa_cfg0]"
proof -
  have h: "\<forall>c\<in>set [core0, core1]. cluster_compute_core_num c = 1"
    by (simp add: core0_def core1_def)
  have r: "snrt_is_compute_core core0 \<and> snrt_is_dm_core core1"
    by (simp add: snrt_is_compute_core_def snrt_is_dm_core_def core0_def core1_def)
  have m0: "core0 \<in> set [core0, core1]" and m1: "core1 \<in> set [core0, core1]"
    by simp_all
  note p = fa_barrier_parity [OF h, of fa_cfg0]
  from p have i0: "barriers (fa_inner_trace core0 fa_cfg0) = 6"
    and i1: "barriers (fa_inner_trace core1 fa_cfg0) = 6"
    using m0 m1 by blast+
  from p have e: "barriers (flashattention_2_trace core0 fa_cfg0)
      = barriers (flashattention_2_trace core1 fa_cfg0)"
    using m0 m1 by blast
  from p have c: "cluster_run (map (\<lambda>c. flashattention_2_trace c fa_cfg0) [core0, core1])"
    by blast
  then have c': "cluster_run [flashattention_2_trace core0 fa_cfg0, flashattention_2_trace core1 fa_cfg0]"
    by simp
  show ?thesis
    using r i0 i1 e c' by blast
qed

lemma called_kernels_Nil: "called_kernels [] = []"
  by (simp add: called_kernels_def)

lemma called_kernels_Cons:
  "called_kernels (e # t) =
     (case e of KernelCall k i ot b s m ep \<Rightarrow> [k] | _ \<Rightarrow> []) @ called_kernels t"
  by (simp add: called_kernels_def)

lemma call_tiles_Nil: "call_tiles [] = []"
  by (simp add: call_tiles_def)

lemma call_tiles_Cons:
  "call_tiles (e # t) =
     (case e of KernelCall k i ot b s m ep \<Rightarrow> [(i, ot)] | _ \<Rightarrow> []) @ call_tiles t"
  by (simp add: call_tiles_def)

lemma kernel_calls_Nil: "kernel_calls [] = []"
  by (simp add: kernel_calls_def)

lemma kernel_calls_Cons:
  "kernel_calls (e # t) =
     (case e of KernelCall k i ot b s m ep \<Rightarrow> [e] | _ \<Rightarrow> []) @ kernel_calls t"
  by (cases e) (simp_all add: kernel_calls_def)

lemma called_kernels_append: "called_kernels (a @ b) = called_kernels a @ called_kernels b"
  by (simp add: called_kernels_def)

lemma called_kernels_concat_replicate:
  "called_kernels (concat (replicate n t)) = concat (replicate n (called_kernels t))"
  by (induction n) (simp_all add: called_kernels_append called_kernels_Nil)

lemma call_tiles_append: "call_tiles (a @ b) = call_tiles a @ call_tiles b"
  by (simp add: call_tiles_def)

lemma call_tiles_concat_replicate:
  "call_tiles (concat (replicate n t)) = concat (replicate n (call_tiles t))"
  by (induction n) (simp_all add: call_tiles_append call_tiles_Nil)

lemma kernel_calls_append: "kernel_calls (a @ b) = kernel_calls a @ kernel_calls b"
  by (simp add: kernel_calls_def)

lemma kernel_calls_concat_replicate:
  "kernel_calls (concat (replicate n t)) = concat (replicate n (kernel_calls t))"
  by (induction n) (simp_all add: kernel_calls_append kernel_calls_Nil)

lemma called_kernels_dispatch:
  "called_kernels (layernorm_dispatch l) =
     (if baseline l = 1 then [Fp32Naive]
      else if dtype l = FP32 then [Fp32Opt]
      else if dtype l = FP16 then [Fp16Opt] else [])"
  by (simp add: layernorm_dispatch_def called_kernels_Cons called_kernels_Nil ln_kernel_call_def)

lemma called_kernels_tile:
  "called_kernels (ln_tile_trace c l) = called_kernels (layernorm_dispatch l)"
  by (simp add: ln_tile_trace_def called_kernels_append called_kernels_Cons called_kernels_Nil)

lemma called_kernels_layer:
  "called_kernels (layernorm_layer_trace c l) =
     (if cluster_num c = 0 \<or> n_tiles l = 0 then []
      else concat (replicate (unat (n_tiles l div cluster_num c))
             (called_kernels (layernorm_dispatch l))))"
  by (simp add: layernorm_layer_trace_def called_kernels_append called_kernels_Cons
        called_kernels_Nil called_kernels_concat_replicate called_kernels_tile
        ln_size_trace_def ln_alloc_trace_def)

lemma concat_replicate_single: "concat (replicate n [x]) = replicate n x"
  by (induction n) simp_all

text \<open>
  Claim C9 (baseline dispatch). When \<open>baseline = 1\<close> the dispatch of a tile is the call
  of \<open>layernorm_fp32_naive\<close>, whatever the \<open>dtype\<close> field holds; the kernels a core
  calls during \<open>layernorm_layer\<close> are then one \<open>layernorm_fp32_naive\<close> per tile of its
  cluster; for \<open>dtype = FP16\<close> the call receives the scratchpad buffers laid out with
  two-byte elements; and no configuration makes \<open>layernorm_layer\<close> call
  \<open>layernorm_fp16_naive\<close>.
\<close>

theorem baseline_dispatches_fp32_naive:
  assumes "baseline l = 1"
  shows "layernorm_dispatch l = [ln_kernel_call Fp32Naive l]
       \<and> called_kernels (layernorm_layer_trace c l) =
           (if cluster_num c = 0 \<or> n_tiles l = 0 then []
            else replicate (unat (n_tiles l div cluster_num c)) Fp32Naive)
       \<and> (dtype l = FP16 \<longrightarrow>
            ln_kernel_call Fp32Naive l =
              KernelCall Fp32Naive (L1 0)
                (L1 (batch_size l * (seq_len l div n_tiles l) * embeddings l * 2))
                (batch_size l) (seq_len l div n_tiles l) (embeddings l)
                (float_to_int32 (eps l)))
       \<and> Fp16Naive \<notin> set (called_kernels (layernorm_layer_trace c' l'))"
proof -
  have a: "layernorm_dispatch l = [ln_kernel_call Fp32Naive l]"
    using assms by (simp add: layernorm_dispatch_def)
  have b: "called_kernels (layernorm_layer_trace c l) =
           (if cluster_num c = 0 \<or> n_tiles l = 0 then []
            else replicate (unat (n_tiles l div cluster_num c)) Fp32Naive)"
    using assms by (simp add: called_kernels_layer called_kernels_dispatch concat_replicate_single)
  have d: "dtype l = FP16 \<longrightarrow>
            ln_kernel_call Fp32Naive l =
              KernelCall Fp32Naive (L1 0)
                (L1 (batch_size l * (seq_len l div n_tiles l) * embeddings l * 2))
                (batch_size l) (seq_len l div n_tiles l) (embeddings l)
                (float_to_int32 (eps l))"
    by (simp add: ln_kernel_call_def ln_local_itile_def ln_local_otile_def
          ln_data_type_size_def ln_tile_seq_len_def)
  have e: "Fp16Naive \<notin> set (called_kernels (layernorm_layer_trace c' l'))"
    by (simp add: called_kernels_layer called_kernels_dispatch)
  show ?thesis using a b d e by blast
qed

lemma call_tiles_dispatch:
  "call_tiles (layernorm_dispatch l) =
     (if baseline l = 1 \<or> dtype l = FP32 \<or> dtype l = FP16
      then [(ln_local_itile (dtype l), ln_local_otile l)] else [])"
  by (simp add: layernorm_dispatch_def call_tiles_Cons call_tiles_Nil ln_kernel_call_def)

lemma call_tiles_tile: "call_tiles (ln_tile_trace c l) = call_tiles (layernorm_dispatch l)"
  by (simp add: ln_tile_trace_def call_tiles_append call_tiles_Cons call_tiles_Nil)

lemma call_tiles_layer:
  "set (call_tiles (layernorm_layer_trace c l)) \<subseteq> set (call_tiles (layernorm_dispatch l))"
  by (auto simp: layernorm_layer_trace_def call_tiles_append call_tiles_Cons call_tiles_Nil
        call_tiles_concat_replicate call_tiles_tile ln_size_trace_def ln_alloc_trace_def)

lemma kernel_calls_tile: "kernel_calls (ln_tile_trace c l) = kernel_calls (layernorm_dispatch l)"
  by (simp add: ln_tile_trace_def kernel_calls_append kernel_calls_Cons kernel_calls_Nil)

lemma kernel_calls_layer:
  "kernel_calls (layernorm_dispatch l) = [] \<Longrightarrow> kernel_calls (layernorm_layer_trace c l) = []"
  by (simp add: layernorm_layer_trace_def kernel_calls_append kernel_calls_Cons kernel_calls_Nil
        kernel_calls_concat_replicate kernel_calls_tile ln_size_trace_def ln_alloc_trace_def)

text \<open>
  Claim C7 (unsupported precision). When \<open>dtype\<close> is neither \<open>FP32\<close> nor \<open>FP16\<close>,
  the first event of \<open>layernorm_layer\<close> on every core is the diagnostic
  "Unsupported data type"; the element size is never assigned; with \<open>baseline \<noteq> 1\<close>
  the dispatch of a tile is the diagnostic again and no kernel is called (the
  normalisation is skipped); and every kernel call that does occur (\<open>baseline = 1\<close>)
  receives indeterminate tile pointers (the normalisation is undefined). The function is
  \<open>void\<close>: the events are all a caller can observe, and none of them is a return code.
\<close>

theorem unsupported_dtype_reported:
  assumes "dtype l \<noteq> FP32" and "dtype l \<noteq> FP16"
  shows "hd (layernorm_layer_trace c l) = Printf unsupported_msg
       \<and> ln_data_type_size (dtype l) = None
       \<and> (baseline l \<noteq> 1 \<longrightarrow>
            layernorm_dispatch l = [Printf unsupported_msg]
            \<and> kernel_calls (layernorm_layer_trace c l) = [])
       \<and> (\<forall>p\<in>set (call_tiles (layernorm_layer_trace c l)). p = (Indeterminate, Indeterminate))"
proof -
  have a: "hd (layernorm_layer_trace c l) = Printf unsupported_msg"
    using assms by (simp add: layernorm_layer_trace_def ln_size_trace_def)
  have b: "ln_data_type_size (dtype l) = None"
    using assms by (simp add: ln_data_type_size_def)
  have d: "layernorm_dispatch l = [Printf unsupported_msg]" if "baseline l \<noteq> 1"
    using assms that by (simp add: layernorm_dispatch_def)
  have e: "kernel_calls (layernorm_layer_trace c l) = []" if "baseline l \<noteq> 1"
    by (rule kernel_calls_layer) (simp add: d [OF that] kernel_calls_Cons kernel_calls_Nil)
  have f: "\<forall>p\<in>set (call_tiles (layernorm_layer_trace c l)). p = (Indeterminate, Indeterminate)"
    using call_tiles_layer [of c l] assms
    by (auto simp: call_tiles_dispatch ln_local_itile_def ln_local_otile_def b split: if_splits)
  show ?thesis using a b d e f by blast
qed

theorem baseline_dispatches_fp32_naive_witness:
  "baseline ln_cfg_fp16_baseline = 1 \<and> dtype ln_cfg_fp16_baseline = FP16
   \<and> called_kernels (layernorm_layer_trace core0 ln_cfg_fp16_baseline) = [Fp32Naive, Fp32Naive]
   \<and> layernorm_dispatch ln_cfg_fp16_baseline =
        [KernelCall Fp32Naive (L1 0) (L1 256) 2 4 16 0]"
proof -
  have h: "baseline ln_cfg_fp16_baseline = 1"
    by (simp add: ln_cfg_fp16_baseline_def)
  have e: "float_to_int32 (1 / 100000) = 0"
    by (simp add: float_to_int32_def)
  have rep: "replicate 2 Fp32Naive = [Fp32Naive, Fp32Naive]"
    by (simp add: numeral_2_eq_2)
  show ?thesis
    using baseline_dispatches_fp32_naive [OF h, of core0 core0 ln_cfg_fp16_baseline]
    by (simp add: ln_cfg_fp16_baseline_def core0_def e rep)
qed

theorem unsupported_dtype_reported_witness:
  "dtype ln_cfg_fp64 \<noteq> FP32 \<and> dtype ln_cfg_fp64 \<noteq> FP16 \<and> baseline ln_cfg_fp64 \<noteq> 1
   \<and> hd (layernorm_layer_trace core1 ln_cfg_fp64) = Printf unsupported_msg
   \<and> kernel_calls (layernorm_layer_trace core1 ln_cfg_fp64) = []"
proof -
  have h1: "dtype ln_cfg_fp64 \<noteq> FP32" and h2: "dtype ln_cfg_fp64 \<noteq> FP16"
    by (simp_all add: ln_cfg_fp64_def)
  show ?thesis
    using unsupported_dtype_reported [OF h1 h2, of core1]
    by (simp add: ln_cfg_fp64_def)
qed

lemma sint_small: "r < 2 ^ 31 \<Longrightarrow> sint (word_of_nat r :: u32) = int r"
proof -
  assume r: "r < 2 ^ 31"
  have u: "unat (word_of_nat r :: u32) = r"
    using r by (simp add: unat_of_nat take_bit_nat_eq_self)
  have "sint (word_of_nat r :: u32) = signed_take_bit 31 (uint (word_of_nat r :: u32))"
    by (simp add: sint_uint)
  also have "uint (word_of_nat r :: u32) = int r"
    unfolding uint_nat using u by simp
  also have "signed_take_bit 31 (int r) = int r"
    using r by (simp add: signed_take_bit_int_eq_self_iff)
  finally show ?thesis .
qed

lemma row_indices_bounds:
  assumes nz: "num_cores \<noteq> 0" and dv: "unat num_cores dvd unat B_r"
  shows "(compute_id < num_cores \<and> unat B_r < 2 ^ 31 \<longrightarrow>
            (\<forall>r\<in>set (row_indices B_r num_cores compute_id). 0 \<le> r \<and> r < uint B_r))
       \<and> (num_cores \<le> compute_id \<and> B_r \<noteq> 0
            \<and> unat (rows_per_core B_r num_cores) * (unat compute_id + 1) < 2 ^ 31 \<longrightarrow>
            row_indices B_r num_cores compute_id \<noteq> []
            \<and> (\<forall>r\<in>set (row_indices B_r num_cores compute_id). uint B_r \<le> r))"
proof -
  define rpc where "rpc = unat B_r div unat num_cores"
  have rpc: "unat (rows_per_core B_r num_cores) = rpc"
    by (simp add: rows_per_core_def unat_div rpc_def)
  have ncpos: "0 < unat num_cores"
    using nz by (simp add: unat_gt_0)
  have full: "rpc * unat num_cores = unat B_r"
    using dv by (simp add: rpc_def)
  have inside: "\<forall>r\<in>set (row_indices B_r num_cores compute_id). 0 \<le> r \<and> r < uint B_r"
    if id: "compute_id < num_cores" and small: "unat B_r < 2 ^ 31"
  proof -
    have idn: "unat compute_id + 1 \<le> unat num_cores"
      using id by (simp add: word_less_nat_alt)
    have "rpc * (unat compute_id + 1) \<le> rpc * unat num_cores"
      using idn by (rule mult_le_mono2)
    then have le: "rpc * unat compute_id + rpc \<le> unat B_r"
      using full by simp
    have s: "unat (start_row B_r num_cores compute_id) = rpc * unat compute_id"
    proof -
      have "unat (rows_per_core B_r num_cores) * unat compute_id < 2 ^ LENGTH(32)"
        using le small rpc by simp
      then show ?thesis
        by (simp add: start_row_def unat_mult_lem [THEN iffD1] rpc)
    qed
    have e: "unat (end_row B_r num_cores compute_id) = rpc * unat compute_id + rpc"
    proof -
      have "unat (start_row B_r num_cores compute_id) + unat (rows_per_core B_r num_cores)
              < 2 ^ LENGTH(32)"
        using le small rpc s by simp
      then show ?thesis
        by (simp add: end_row_def unat_add_lem [THEN iffD1] rpc s)
    qed
    show ?thesis
    proof
      fix r assume "r \<in> set (row_indices B_r num_cores compute_id)"
      then have "r \<in> (\<lambda>k. sint (word_of_nat k :: u32))
                   ` {rpc * unat compute_id ..< rpc * unat compute_id + rpc}"
        unfolding row_indices_def row_loop_def s e by simp
      then obtain k where k: "r = sint (word_of_nat k :: u32)"
        "rpc * unat compute_id \<le> k" "k < rpc * unat compute_id + rpc"
        by (elim imageE) simp
      have kb: "k < unat B_r" using k le by simp
      then have "k < 2 ^ 31" using small by simp
      then have "r = int k" using k(1) by (simp add: sint_small)
      moreover have "uint B_r = int (unat B_r)" by (rule uint_nat)
      ultimately show "0 \<le> r \<and> r < uint B_r" using kb by linarith
    qed
  qed
  have outside: "row_indices B_r num_cores compute_id \<noteq> []
            \<and> (\<forall>r\<in>set (row_indices B_r num_cores compute_id). uint B_r \<le> r)"
    if id: "num_cores \<le> compute_id" and bnz: "B_r \<noteq> 0"
      and nowrap: "unat (rows_per_core B_r num_cores) * (unat compute_id + 1) < 2 ^ 31"
  proof -
    have idn: "unat num_cores \<le> unat compute_id"
      using id by (simp add: word_le_nat_alt)
    have "rpc * unat num_cores \<le> rpc * unat compute_id"
      using idn by (rule mult_le_mono2)
    then have ge: "unat B_r \<le> rpc * unat compute_id"
      using full by simp
    have "0 < unat B_r" using bnz by (simp add: unat_gt_0)
    then have rpcpos: "0 < rpc"
      using full by (cases rpc) auto
    have nw: "rpc * unat compute_id + rpc < 2 ^ 31"
      using nowrap rpc by simp
    have s: "unat (start_row B_r num_cores compute_id) = rpc * unat compute_id"
    proof -
      have "unat (rows_per_core B_r num_cores) * unat compute_id < 2 ^ LENGTH(32)"
        using nw rpc by simp
      then show ?thesis
        by (simp add: start_row_def unat_mult_lem [THEN iffD1] rpc)
    qed
    have e: "unat (end_row B_r num_cores compute_id) = rpc * unat compute_id + rpc"
    proof -
      have "unat (start_row B_r num_cores compute_id) + unat (rows_per_core B_r num_cores)
              < 2 ^ LENGTH(32)"
        using nw rpc s by simp
      then show ?thesis
        by (simp add: end_row_def unat_add_lem [THEN iffD1] rpc s)
    qed
    have ne: "row_indices B_r num_cores compute_id \<noteq> []"
      unfolding row_indices_def row_loop_def s e using rpcpos by simp
    have "\<forall>r\<in>set (row_indices B_r num_cores compute_id). uint B_r \<le> r"
    proof
      fix r assume "r \<in> set (row_indices B_r num_cores compute_id)"
      then have "r \<in> (\<lambda>k. sint (word_of_nat k :: u32))
                   ` {rpc * unat compute_id ..< rpc * unat compute_id + rpc}"
        unfolding row_indices_def row_loop_def s e by simp
      then obtain k where k: "r = sint (word_of_nat k :: u32)"
        "rpc * unat compute_id \<le> k" "k < rpc * unat compute_id + rpc"
        by (elim imageE) simp
      have "k < 2 ^ 31" using k nw by simp
      then have "r = int k" using k(1) by (simp add: sint_small)
      moreover have "uint B_r = int (unat B_r)" by (rule uint_nat)
      ultimately show "uint B_r \<le> r" using k(2) ge by linarith
    qed
    then show ?thesis using ne by blast
  qed
  show ?thesis using inside outside by blast
qed

text \<open>
  Claim C10 (row partition by the global core index). Let the number of compute cores be
  non-zero and divide \<open>B_r\<close>. For a compute core whose global index is its index within
  the cluster (the situation of a single running cluster), every subscript \<open>row_idx\<close> of
  the three row loops lies in \<open>[0, B_r)\<close>. For a core whose global index is at least the
  number of compute cores, the loops are not empty and every subscript is \<open>B_r\<close> or more.
  The row counts are taken small enough for the \<open>int\<close> subscript (\<open>B_r < 2^31\<close>, and no
  wrap-around in \<open>rows_per_core * (compute_id + 1)\<close>).
\<close>

theorem row_indices_containment:
  assumes "cluster_compute_core_num c \<noteq> 0"
    and "unat (cluster_compute_core_num c) dvd unat B_r"
  shows "(snrt_is_compute_core c \<and> global_core_idx c = cluster_core_idx c \<and> unat B_r < 2 ^ 31 \<longrightarrow>
            (\<forall>r\<in>set (row_indices B_r (cluster_compute_core_num c) (global_core_idx c)).
               0 \<le> r \<and> r < uint B_r))
       \<and> (cluster_compute_core_num c \<le> global_core_idx c \<and> B_r \<noteq> 0
            \<and> unat (rows_per_core B_r (cluster_compute_core_num c)) * (unat (global_core_idx c) + 1)
                  < 2 ^ 31 \<longrightarrow>
            row_indices B_r (cluster_compute_core_num c) (global_core_idx c) \<noteq> []
            \<and> (\<forall>r\<in>set (row_indices B_r (cluster_compute_core_num c) (global_core_idx c)).
                  uint B_r \<le> r))"
  using row_indices_bounds [OF assms, of "global_core_idx c"]
  by (auto simp: snrt_is_compute_core_def)

theorem row_indices_containment_witness:
  "snrt_is_compute_core core_a \<and> global_core_idx core_a = cluster_core_idx core_a
   \<and> set (row_indices 8 (cluster_compute_core_num core_a) (global_core_idx core_a)) \<subseteq> {0..<8}
   \<and> snrt_is_compute_core core_b
   \<and> row_indices 8 (cluster_compute_core_num core_b) (global_core_idx core_b) \<noteq> []
   \<and> set (row_indices 8 (cluster_compute_core_num core_b) (global_core_idx core_b)) \<subseteq> {8..}"
proof -
  have a1: "cluster_compute_core_num core_a \<noteq> 0"
    and a2: "unat (cluster_compute_core_num core_a) dvd unat (8 :: u32)"
    by (simp_all add: core_a_def)
  have b1: "cluster_compute_core_num core_b \<noteq> 0"
    and b2: "unat (cluster_compute_core_num core_b) dvd unat (8 :: u32)"
    by (simp_all add: core_b_def)
  have ra: "snrt_is_compute_core core_a \<and> global_core_idx core_a = cluster_core_idx core_a"
    by (simp add: snrt_is_compute_core_def core_a_def)
  have rb: "snrt_is_compute_core core_b \<and> cluster_compute_core_num core_b \<le> global_core_idx core_b
      \<and> unat (rows_per_core 8 (cluster_compute_core_num core_b)) * (unat (global_core_idx core_b) + 1)
          < 2 ^ 31"
    by (simp add: snrt_is_compute_core_def core_b_def rows_per_core_def)
  from row_indices_containment [OF a1 a2] ra
  have "\<forall>r\<in>set (row_indices 8 (cluster_compute_core_num core_a) (global_core_idx core_a)).
          0 \<le> r \<and> r < 8"
    by simp
  moreover from row_indices_containment [OF b1 b2] rb
  have "row_indices 8 (cluster_compute_core_num core_b) (global_core_idx core_b) \<noteq> []
      \<and> (\<forall>r\<in>set (row_indices 8 (cluster_compute_core_num core_b) (global_core_idx core_b)).
            8 \<le> r)"
    by simp
  ultimately show ?thesis using ra rb by auto
qed

section \<open>Properties of LayerNorm on memory\<close>

lemma fold_upd_range:
  "fold (\<lambda>i y'. y'(base + i := g i)) [0..<n] y =
     (\<lambda>a. if base \<le> a \<and> a < base + n then g (a - base) else y a)"
proof (induction n)
  case 0
  show ?case by (auto simp: fun_eq_iff)
next
  case (Suc n)
  have "fold (\<lambda>i y'. y'(base + i := g i)) [0..<Suc n] y
          = (fold (\<lambda>i y'. y'(base + i := g i)) [0..<n] y)(base + n := g n)"
    by simp
  also have "\<dots> = (\<lambda>a. if base \<le> a \<and> a < base + n then g (a - base) else y a)(base + n := g n)"
    by (simp only: Suc)
  also have "\<dots> = (\<lambda>a. if base \<le> a \<and> a < base + Suc n then g (a - base) else y a)"
    by (auto simp: fun_eq_iff)
  finally show ?case .
qed

lemma fold_add_sum: "fold (\<lambda>i m. m + f i) [0..<n] (z :: real) = z + (\<Sum>i<n. f i)"
  by (induction n) simp_all

lemma ln_row_eq:
  "ln_row e E x base y =
     (\<lambda>a. if base \<le> a \<and> a < base + E then ln_norm e E x base (a - base) else y a)"
  by (simp add: ln_row_def Let_def fold_upd_range ln_norm_def fun_eq_iff)

lemma ln_norm_cong:
  assumes "\<And>i. i < E \<Longrightarrow> x (base + i) = x' (base' + i)" and "i < E"
  shows "ln_norm e E x base i = ln_norm e E x' base' i"
proof -
  have m: "ln_mean x base E = ln_mean x' base' E"
    using assms(1) by (simp add: ln_mean_def fold_add_sum)
  have v: "ln_var x base E e m' = ln_var x' base' E e m'" for m'
    using assms(1) by (simp add: ln_var_def fold_add_sum)
  show ?thesis
    using assms by (simp add: ln_norm_def m v)
qed

lemma in_row_iff:
  "(r * E \<le> a \<and> a < r * E + E) \<longleftrightarrow> (0 < E \<and> a div E = (r::nat))"
proof (cases "E = 0")
  case True
  then show ?thesis by simp
next
  case False
  have "a div E = r" if "r * E \<le> a" "a < r * E + E"
    using that by (intro div_nat_eqI) (simp_all add: mult.commute)
  moreover have "a div E * E \<le> a"
    by (rule div_times_less_eq_dividend)
  moreover have "a < a div E * E + E"
    using False dividend_less_div_times [of E a] by (simp add: add.commute)
  ultimately show ?thesis using False by auto
qed

lemma ln_row_at_row:
  "ln_row e E x (r * E) y =
     (\<lambda>a. if 0 < E \<and> a div E = r then ln_norm e E x (a div E * E) (a mod E) else y a)"
proof -
  have sub: "a div E = r \<Longrightarrow> a - r * E = a mod E" for a
    by (metis modulo_nat_def mult.commute)
  show ?thesis
    unfolding ln_row_eq in_row_iff by (auto simp: fun_eq_iff sub)
qed

text \<open>A sequence of row stores, each at a multiple of the row length.\<close>

lemma fold_rows:
  "fold (\<lambda>r y'. ln_row e E x (r * E) y') rs y =
     (\<lambda>a. if 0 < E \<and> a div E \<in> set rs then ln_norm e E x (a div E * E) (a mod E) else y a)"
proof (induction rs arbitrary: y)
  case Nil
  show ?case by simp
next
  case (Cons r rs)
  have "fold (\<lambda>r y'. ln_row e E x (r * E) y') (r # rs) y
          = fold (\<lambda>r y'. ln_row e E x (r * E) y') rs (ln_row e E x (r * E) y)"
    by simp
  also have "\<dots> = (\<lambda>a. if 0 < E \<and> a div E \<in> set rs
                       then ln_norm e E x (a div E * E) (a mod E)
                       else ln_row e E x (r * E) y a)"
    by (rule Cons.IH)
  also have "\<dots> = (\<lambda>a. if 0 < E \<and> a div E \<in> set (r # rs)
                       then ln_norm e E x (a div E * E) (a mod E) else y a)"
    unfolding ln_row_at_row by (auto simp: fun_eq_iff)
  finally show ?case .
qed

lemma fold_fold_concat:
  "fold (\<lambda>b y. fold (\<lambda>s y'. F (g b s) y') ss y) bs y0
     = fold F (concat (map (\<lambda>b. map (g b) ss) bs)) y0"
  by (induction bs arbitrary: y0) (simp_all add: fold_map comp_def)

lemma naive_rows:
  "layernorm_fp32_naive c x y B T E e =
     (if snrt_is_compute_core c
      then fold (\<lambda>r y'. ln_row e E x (r * E) y')
             (core_rows (unat (cluster_core_idx c)) (unat (cluster_compute_core_num c)) B T) y
      else y)"
proof -
  have base: "unat (cluster_core_idx c) * E + (b * (T * E) + s * (unat (cluster_compute_core_num c) * E))
      = (unat (cluster_core_idx c) + (b * T + s * unat (cluster_compute_core_num c))) * E" for b s
    by (simp add: algebra_simps)
  show ?thesis
    unfolding layernorm_fp32_naive_def Let_def base core_rows_def
    by (simp add: fold_fold_concat [where F = "\<lambda>r y'. ln_row e E x (r * E) y'"])
qed

lemma ln_cores_Inr:
  "ln_cores (\<lambda>c y'. Inr (k c y')) cs y = Inr (fold k cs y)"
  by (induction cs arbitrary: y) simp_all

lemma unat_of_nat_small: "i < 2 ^ 32 \<Longrightarrow> unat (of_nat i :: u32) = i"
  by (simp add: unat_of_nat take_bit_nat_eq_self)

lemma compute_cluster_core:
  assumes "n + 1 < 2 ^ 32" and "i \<le> n"
  shows "snrt_is_compute_core (cluster_core cl ncl n i) \<longleftrightarrow> i < n"
    and "unat (cluster_core_idx (cluster_core cl ncl n i)) = i"
    and "unat (cluster_compute_core_num (cluster_core cl ncl n i)) = n"
proof -
  have un: "unat (of_nat n :: u32) = n" using assms by (simp add: unat_of_nat_small)
  have ui: "unat (of_nat i :: u32) = i" using assms by (simp add: unat_of_nat_small)
  show "snrt_is_compute_core (cluster_core cl ncl n i) \<longleftrightarrow> i < n"
    by (simp add: snrt_is_compute_core_def cluster_core_def word_less_nat_alt un ui)
  show "unat (cluster_core_idx (cluster_core cl ncl n i)) = i"
    by (simp add: cluster_core_def ui)
  show "unat (cluster_compute_core_num (cluster_core cl ncl n i)) = n"
    by (simp add: cluster_core_def un)
qed

lemma fold_cluster_cores:
  assumes n: "n + 1 < 2 ^ 32"
  shows "fold (\<lambda>c y'. layernorm_fp32_naive c x y' B T E e) (cluster_cores cl ncl n) y
     = fold (\<lambda>r y'. ln_row e E x (r * E) y') (concat (map (\<lambda>i. core_rows i n B T) [0..<n])) y"
proof -
  let ?R = "\<lambda>r y'. ln_row e E x (r * E) y'"
  have step: "layernorm_fp32_naive (cluster_core cl ncl n i) x y' B T E e
      = fold ?R (core_rows i n B T) y'" if "i < n" for i y'
    using that compute_cluster_core [OF n, of i cl ncl] by (simp add: naive_rows)
  have dm: "layernorm_fp32_naive (cluster_core cl ncl n n) x y' B T E e = y'" for y'
    using compute_cluster_core [OF n, of n cl ncl] by (simp add: naive_rows)
  have pre: "fold (\<lambda>c y'. layernorm_fp32_naive c x y' B T E e) (map (cluster_core cl ncl n) [0..<m]) y
      = fold ?R (concat (map (\<lambda>i. core_rows i n B T) [0..<m])) y" if "m \<le> n" for m
    using that
  proof (induction m)
    case 0
    show ?case by simp
  next
    case (Suc m)
    then show ?case by (simp add: step)
  qed
  show ?thesis
    unfolding cluster_cores_def using pre [of n] by (simp add: dm)
qed

lemma mem_core_rows:
  "r \<in> set (concat (map (\<lambda>i. core_rows i n B T) [0..<n]))
     \<longleftrightarrow> (\<exists>i<n. \<exists>b<B. \<exists>s<T div n. r = i + (b * T + s * n))"
proof
  assume "r \<in> set (concat (map (\<lambda>i. core_rows i n B T) [0..<n]))"
  then obtain i b s where "i < n" "b < B" "s < T div n" "r = i + (b * T + s * n)"
    by (auto simp: core_rows_def)
  then show "\<exists>i<n. \<exists>b<B. \<exists>s<T div n. r = i + (b * T + s * n)"
    by blast
next
  assume "\<exists>i<n. \<exists>b<B. \<exists>s<T div n. r = i + (b * T + s * n)"
  then obtain i b s where h: "i < n" "b < B" "s < T div n" "r = i + (b * T + s * n)"
    by blast
  have "r \<in> set (core_rows i n B T)"
    unfolding core_rows_def set_concat set_map set_upt using h(2,3,4) by force
  then show "r \<in> set (concat (map (\<lambda>i. core_rows i n B T) [0..<n]))"
    using h(1) by auto
qed

lemma core_rows_cover:
  assumes "0 < n" and "n dvd T"
  shows "set (concat (map (\<lambda>i. core_rows i n B T) [0..<n])) = {..<B * T}"
proof (intro set_eqI iffI)
  fix r assume "r \<in> set (concat (map (\<lambda>i. core_rows i n B T) [0..<n]))"
  then obtain i b s where h: "i < n" "b < B" "s < T div n" "r = i + (b * T + s * n)"
    unfolding mem_core_rows by blast
  have "s * n + i < T"
  proof -
    have "Suc s * n \<le> T div n * n" using h(3) by (intro mult_le_mono1) simp
    also have "\<dots> = T" using assms(2) by simp
    finally show ?thesis using h(1) by simp
  qed
  then have "r < b * T + T" using h(4) by simp
  also have "\<dots> = Suc b * T" by simp
  also have "\<dots> \<le> B * T" using h(2) by (intro mult_le_mono1) simp
  finally show "r \<in> {..<B * T}" by simp
next
  fix r assume "r \<in> {..<B * T}"
  then have r: "r < B * T" by simp
  then have Tpos: "0 < T" by (cases T) auto
  define b where "b = r div T"
  define t where "t = r mod T"
  define s where "s = t div n"
  define i where "i = t mod n"
  have "b < B" using r Tpos by (simp add: b_def less_mult_imp_div_less)
  moreover have "t < T" using Tpos by (simp add: t_def)
  then have "s < T div n" using assms by (simp add: s_def less_mult_imp_div_less dvd_div_mult_self)
  moreover have "i < n" using assms(1) by (simp add: i_def)
  moreover have "r = i + (b * T + s * n)"
    by (simp add: b_def t_def s_def i_def)
  ultimately show "r \<in> set (concat (map (\<lambda>i. core_rows i n B T) [0..<n]))"
    unfolding mem_core_rows by blast
qed

text \<open>
  The vectorised FP32 kernel against the scalar one: with exact arithmetic and a row
  length that is a non-zero multiple of 8 they store the same tile.
\<close>

lemma opt_lane_sum_eq:
  "opt_lane_sum f n k = (\<Sum>j<n. f (8 * j + 2 * k) + f (8 * j + 2 * k + 1))"
  by (simp add: opt_lane_sum_def fold_add_sum)

lemma sum_next_8:
  "(\<Sum>i<8 * Suc n. f i) = (\<Sum>i<8 * n. f i)
      + (f (8 * n) + f (8 * n + 1) + f (8 * n + 2) + f (8 * n + 3)
         + f (8 * n + 4) + f (8 * n + 5) + f (8 * n + 6) + f (8 * n + 7 :: nat) :: real)"
proof -
  have e: "8 * Suc n = Suc (Suc (Suc (Suc (Suc (Suc (Suc (Suc (8 * n))))))))"
    by simp
  have a: "8 * n + 1 = Suc (8 * n)" "8 * n + 2 = Suc (Suc (8 * n))"
     "8 * n + 3 = Suc (Suc (Suc (8 * n)))" "8 * n + 4 = Suc (Suc (Suc (Suc (8 * n))))"
     "8 * n + 5 = Suc (Suc (Suc (Suc (Suc (8 * n)))))"
     "8 * n + 6 = Suc (Suc (Suc (Suc (Suc (Suc (8 * n))))))"
     "8 * n + 7 = Suc (Suc (Suc (Suc (Suc (Suc (Suc (8 * n)))))))"
    by simp_all
  show ?thesis unfolding e a by (simp only: sum.lessThan_Suc add.assoc)
qed

lemma opt_lane_sum_Suc:
  "opt_lane_sum f (Suc n) k = opt_lane_sum f n k + (f (8 * n + 2 * k) + f (8 * n + 2 * k + 1))"
  by (simp only: opt_lane_sum_eq sum.lessThan_Suc)

lemma opt_sum_eq: "opt_sum f n = (\<Sum>i<8 * n. f i)"
proof (induction n)
  case 0
  show ?case by (simp add: opt_sum_def opt_lane_sum_eq)
next
  case (Suc n)
  have k: "8 * n + 2 * 0 = 8 * n" "8 * n + 2 * 1 = 8 * n + 2" "8 * n + 2 * 2 = 8 * n + 4"
    "8 * n + 2 * 3 = 8 * n + 6" "8 * n + 2 + 1 = 8 * n + 3" "8 * n + 4 + 1 = 8 * n + 5"
    "8 * n + 6 + 1 = 8 * n + 7"
    by simp_all
  have "opt_sum f (Suc n) = opt_sum f n
      + (f (8 * n) + f (8 * n + 1) + f (8 * n + 2) + f (8 * n + 3)
         + f (8 * n + 4) + f (8 * n + 5) + f (8 * n + 6) + f (8 * n + 7))"
    unfolding opt_sum_def opt_lane_sum_Suc k by (simp only: add.assoc add.left_commute)
  also have "\<dots> = (\<Sum>i<8 * n. f i)
      + (f (8 * n) + f (8 * n + 1) + f (8 * n + 2) + f (8 * n + 3)
         + f (8 * n + 4) + f (8 * n + 5) + f (8 * n + 6) + f (8 * n + 7))"
    by (simp only: Suc)
  also have "\<dots> = (\<Sum>i<8 * Suc n. f i)"
    by (simp only: sum_next_8)
  finally show ?case .
qed

lemma fp32_opt_row_eq:
  assumes "8 dvd E"
  shows "fp32_opt_row e E x base = ln_row e E x base"
proof
  fix y
  have n: "8 * (E div 8) = E" using assms by simp
  have m: "opt_sum (\<lambda>i. x (base + i)) (E div 8) / real E = ln_mean x base E"
    by (simp add: opt_sum_eq n ln_mean_def fold_add_sum)
  have v: "sqrt (opt_sum (\<lambda>i. (x (base + i) - mu) * (x (base + i) - mu)) (E div 8) / real E
             + real_of_int e) = ln_var x base E e mu" for mu
    by (simp add: opt_sum_eq n ln_var_def fold_add_sum)
  have "fp32_opt_row e E x base y =
     (\<lambda>a. if base \<le> a \<and> a < base + E
          then (x (base + (a - base)) - ln_mean x base E)
                 * (1 / ln_var x base E e (ln_mean x base E))
          else y a)"
    unfolding fp32_opt_row_def Let_def n m v fold_upd_range
    by (auto simp: fun_eq_iff)
  also have "\<dots> = ln_row e E x base y"
    unfolding ln_row_eq ln_norm_def by (auto simp: fun_eq_iff)
  finally show "fp32_opt_row e E x base y = ln_row e E x base y" .
qed

lemma fp32_opt_eq_naive:
  assumes "8 dvd E" and "0 < E"
  shows "layernorm_fp32_opt c x y B T E e = Inr (layernorm_fp32_naive c x y B T E e)"
proof -
  have "E div 8 \<noteq> 0" using assms by (auto simp: dvd_def)
  then show ?thesis
    by (simp add: layernorm_fp32_opt_def layernorm_fp32_naive_def Let_def
        fp32_opt_row_eq [OF assms(1)])
qed

lemma compute_tile_naive:
  assumes "n + 1 < 2 ^ 32" and "0 < n" and "n dvd unat (ln_tile_seq_len l)"
    and "baseline l = 1 \<or> 8 dvd unat (embeddings l) \<and> 0 < unat (embeddings l)"
    and "dtype l = FP32"
  shows "ln_compute_tile (cluster_cores cl ncl n) l x y =
     Inr (\<lambda>a. if 0 < unat (embeddings l)
                  \<and> a div unat (embeddings l) < unat (batch_size l) * unat (ln_tile_seq_len l)
               then ln_norm (float_to_int32 (eps l)) (unat (embeddings l)) x
                      (a div unat (embeddings l) * unat (embeddings l)) (a mod unat (embeddings l))
               else y a)"
proof -
  let ?B = "unat (batch_size l)" and ?T = "unat (ln_tile_seq_len l)" and ?E = "unat (embeddings l)"
  let ?e = "float_to_int32 (eps l)"
  have "ln_compute_tile (cluster_cores cl ncl n) l x y
      = Inr (fold (\<lambda>c y'. layernorm_fp32_naive c x y' ?B ?T ?E ?e) (cluster_cores cl ncl n) y)"
  proof (cases "baseline l = 1")
    case True
    then show ?thesis
      using assms(5) by (simp add: ln_compute_tile_def Let_def ln_cores_Inr)
  next
    case False
    then have "8 dvd ?E" "0 < ?E" using assms(4) by simp_all
    then have "layernorm_fp32_opt c x y' ?B ?T ?E ?e = Inr (layernorm_fp32_naive c x y' ?B ?T ?E ?e)"
      for c y'
      by (rule fp32_opt_eq_naive)
    then show ?thesis
      using False assms(5) by (simp add: ln_compute_tile_def Let_def ln_cores_Inr)
  qed
  also have "fold (\<lambda>c y'. layernorm_fp32_naive c x y' ?B ?T ?E ?e) (cluster_cores cl ncl n) y
      = fold (\<lambda>r y'. ln_row ?e ?E x (r * ?E) y') (concat (map (\<lambda>i. core_rows i n ?B ?T) [0..<n])) y"
    by (rule fold_cluster_cores [OF assms(1)])
  also have "\<dots> = (\<lambda>a. if 0 < ?E \<and> a div ?E \<in> set (concat (map (\<lambda>i. core_rows i n ?B ?T) [0..<n]))
                       then ln_norm ?e ?E x (a div ?E * ?E) (a mod ?E) else y a)"
    by (rule fold_rows)
  also have "set (concat (map (\<lambda>i. core_rows i n ?B ?T) [0..<n])) = {..<?B * ?T}"
    by (rule core_rows_cover [OF assms(2,3)])
  finally show ?thesis by simp
qed

lemma dma_inner:
  "fold (\<lambda>j m'. m'(base + j := src (sbase + j))) [0..<n] m =
     (\<lambda>a. if base \<le> a \<and> a < base + n then src (sbase + (a - base)) else m a)"
  by (rule fold_upd_range)

lemma dma_2d_Suc:
  "dma_2d dst db src sb sz ds ss (Suc B) =
     (\<lambda>a. if db + B * ds \<le> a \<and> a < db + B * ds + sz
          then src (sb + B * ss + (a - (db + B * ds)))
          else dma_2d dst db src sb sz ds ss B a)"
  unfolding dma_2d_def by (simp add: dma_inner)

lemma dma_2d_0: "dma_2d dst db src sb sz ds ss 0 = dst"
  by (simp add: dma_2d_def)

lemma dma_2d_hit:
  assumes "sz \<le> ds" and "r < B" and "j < sz"
  shows "dma_2d dst db src sb sz ds ss B (db + r * ds + j) = src (sb + r * ss + j)"
  using assms(2)
proof (induction B)
  case 0
  then show ?case by simp
next
  case (Suc B)
  show ?case
  proof (cases "r = B")
    case True
    then show ?thesis using assms(3) by (simp add: dma_2d_Suc)
  next
    case False
    then have rB: "r < B" using Suc.prems by simp
    have "Suc r * ds \<le> B * ds" using rB by (intro mult_le_mono1) simp
    then have "r * ds + j < B * ds" using assms(1,3) by simp
    then show ?thesis using Suc.IH [OF rB] by (simp add: dma_2d_Suc)
  qed
qed

lemma dma_2d_miss:
  assumes "\<And>r j. r < B \<Longrightarrow> j < sz \<Longrightarrow> a \<noteq> db + r * ds + j"
  shows "dma_2d dst db src sb sz ds ss B a = dst a"
  using assms
proof (induction B)
  case 0
  show ?case by (simp add: dma_2d_0)
next
  case (Suc B)
  have "\<not> (db + B * ds \<le> a \<and> a < db + B * ds + sz)"
  proof
    assume h: "db + B * ds \<le> a \<and> a < db + B * ds + sz"
    then have "a - (db + B * ds) < sz" by arith
    moreover have "a = db + B * ds + (a - (db + B * ds))" using h by arith
    ultimately show False using Suc.prems [of B "a - (db + B * ds)"] by simp
  qed
  moreover have "dma_2d dst db src sb sz ds ss B a = dst a"
    by (rule Suc.IH) (use Suc.prems in auto)
  ultimately show ?case unfolding dma_2d_Suc by auto
qed

text \<open>One tile of the FP32 paths.\<close>

lemma ln_tile_naive:
  assumes n: "n + 1 < 2 ^ 32" "0 < n" "n dvd unat (ln_tile_seq_len l)"
    and l: "baseline l = 1 \<or> 8 dvd unat (embeddings l) \<and> 0 < unat (embeddings l)" "dtype l = FP32"
    and TS: "unat (ln_tile_seq_len l) \<le> unat (seq_len l)"
  shows "\<exists>st'. ln_tile (cluster_cores cl ncl n) l ifm t st = Inr st'
      \<and> ofmap st' = (\<lambda>a. if a \<in> tile_cells (unat (batch_size l)) (unat (seq_len l))
                                  (unat (ln_tile_seq_len l)) (unat (embeddings l)) t
                        then ln_norm (float_to_int32 (eps l)) (unat (embeddings l)) ifm
                               (a div unat (embeddings l) * unat (embeddings l))
                               (a mod unat (embeddings l))
                        else ofmap st a)"
proof -
  let ?B = "unat (batch_size l)" and ?T = "unat (ln_tile_seq_len l)" and ?E = "unat (embeddings l)"
  let ?S = "unat (seq_len l)" and ?e = "float_to_int32 (eps l)"
  define x where "x = dma_2d (local_itile st) 0 ifm (t * (?T * ?E)) (?T * ?E) (?T * ?E) (?S * ?E) ?B"
  define y where "y = (\<lambda>a. if 0 < ?E \<and> a div ?E < ?B * ?T
               then ln_norm ?e ?E x (a div ?E * ?E) (a mod ?E) else local_otile st a)"
  define om where "om = dma_2d (ofmap st) (t * (?T * ?E)) y 0 (?T * ?E) (?S * ?E) (?T * ?E) ?B"
  have ct: "ln_compute_tile (cluster_cores cl ncl n) l x (local_otile st) = Inr y"
    unfolding y_def by (rule compute_tile_naive [OF n l])
  have res: "ln_tile (cluster_cores cl ncl n) l ifm t st
      = Inr \<lparr>local_itile = x, local_otile = y, ofmap = om\<rparr>"
    by (simp add: ln_tile_def Let_def x_def [symmetric] ct om_def)
  have xin: "x ((b * ?T + s) * ?E + i) = ifm ((b * ?S + (t * ?T + s)) * ?E + i)"
    if "b < ?B" "s < ?T" "i < ?E" for b s i
  proof -
    have "Suc s * ?E \<le> ?T * ?E" using that(2) by (intro mult_le_mono1) simp
    then have j: "s * ?E + i < ?T * ?E" using that(3) by simp
    have "x (0 + b * (?T * ?E) + (s * ?E + i)) = ifm (t * (?T * ?E) + b * (?S * ?E) + (s * ?E + i))"
      unfolding x_def by (rule dma_2d_hit [OF _ that(1) j]) simp
    then show ?thesis by (simp add: algebra_simps)
  qed
  have yrow: "y ((b * ?T + s) * ?E + i) = ln_norm ?e ?E ifm ((b * ?S + (t * ?T + s)) * ?E) i"
    if "b < ?B" "s < ?T" "i < ?E" for b s i
  proof -
    have Epos: "0 < ?E" using that(3) by simp
    have d: "((b * ?T + s) * ?E + i) div ?E = b * ?T + s"
      using that(3) by simp
    have m: "((b * ?T + s) * ?E + i) mod ?E = i"
      using that(3) by simp
    have "Suc b * ?T \<le> ?B * ?T" using that(1) by (intro mult_le_mono1) simp
    then have lt: "b * ?T + s < ?B * ?T" using that(2) by simp
    have "y ((b * ?T + s) * ?E + i) = ln_norm ?e ?E x ((b * ?T + s) * ?E) i"
      unfolding y_def d m using Epos lt by simp
    also have "\<dots> = ln_norm ?e ?E ifm ((b * ?S + (t * ?T + s)) * ?E) i"
      by (rule ln_norm_cong [OF _ that(3)]) (simp add: xin that)
    finally show ?thesis .
  qed
  have hit: "om a = ln_norm ?e ?E ifm (a div ?E * ?E) (a mod ?E)"
    if "a \<in> tile_cells ?B ?S ?T ?E t" for a
  proof -
    from that obtain b s i where h: "b < ?B" "s < ?T" "i < ?E"
      "a = (b * ?S + (t * ?T + s)) * ?E + i"
      unfolding tile_cells_def by blast
    have "Suc s * ?E \<le> ?T * ?E" using h(2) by (intro mult_le_mono1) simp
    then have j: "s * ?E + i < ?T * ?E" using h(3) by simp
    have le: "?T * ?E \<le> ?S * ?E" using TS by simp
    have "om (t * (?T * ?E) + b * (?S * ?E) + (s * ?E + i)) = y (0 + b * (?T * ?E) + (s * ?E + i))"
      unfolding om_def by (rule dma_2d_hit [OF le h(1) j])
    also have "\<dots> = y ((b * ?T + s) * ?E + i)" by (simp add: algebra_simps)
    also have "\<dots> = ln_norm ?e ?E ifm ((b * ?S + (t * ?T + s)) * ?E) i"
      by (rule yrow [OF h(1,2,3)])
    finally have "om a = ln_norm ?e ?E ifm ((b * ?S + (t * ?T + s)) * ?E) i"
      unfolding h(4) by (simp add: algebra_simps)
    moreover have "a div ?E = b * ?S + (t * ?T + s)" "a mod ?E = i"
      unfolding h(4) using h(3) by simp_all
    ultimately show ?thesis by simp
  qed
  have miss: "om a = ofmap st a" if "a \<notin> tile_cells ?B ?S ?T ?E t" for a
    unfolding om_def
  proof (rule dma_2d_miss)
    fix r j assume r: "r < ?B" and j: "j < ?T * ?E"
    show "a \<noteq> t * (?T * ?E) + r * (?S * ?E) + j"
    proof
      assume a: "a = t * (?T * ?E) + r * (?S * ?E) + j"
      have Epos: "0 < ?E" using j by (cases "?E") auto
      have "j div ?E < ?T" using j Epos by (simp add: less_mult_imp_div_less)
      moreover have "j mod ?E < ?E" using Epos by simp
      moreover have "a = (r * ?S + (t * ?T + j div ?E)) * ?E + j mod ?E"
        unfolding a by (simp add: algebra_simps)
      ultimately have "a \<in> tile_cells ?B ?S ?T ?E t"
        unfolding tile_cells_def using r by blast
      then show False using that by simp
    qed
  qed
  have "om = (\<lambda>a. if a \<in> tile_cells ?B ?S ?T ?E t
                   then ln_norm ?e ?E ifm (a div ?E * ?E) (a mod ?E) else ofmap st a)"
    using hit miss by (auto simp: fun_eq_iff)
  then show ?thesis using res by simp
qed

lemma ln_tiles_naive:
  assumes n: "n + 1 < 2 ^ 32" "0 < n" "n dvd unat (ln_tile_seq_len l)"
    and l: "baseline l = 1 \<or> 8 dvd unat (embeddings l) \<and> 0 < unat (embeddings l)" "dtype l = FP32"
    and TS: "unat (ln_tile_seq_len l) \<le> unat (seq_len l)"
  shows "\<exists>st'. ln_tiles (cluster_cores cl ncl n) l ifm ts st = Inr st'
      \<and> ofmap st' = (\<lambda>a. if a \<in> (\<Union>t\<in>set ts. tile_cells (unat (batch_size l)) (unat (seq_len l))
                                  (unat (ln_tile_seq_len l)) (unat (embeddings l)) t)
                        then ln_norm (float_to_int32 (eps l)) (unat (embeddings l)) ifm
                               (a div unat (embeddings l) * unat (embeddings l))
                               (a mod unat (embeddings l))
                        else ofmap st a)"
proof (induction ts arbitrary: st)
  case Nil
  show ?case by simp
next
  case (Cons t ts)
  from ln_tile_naive [OF n l TS, of cl ncl ifm t st]
  obtain st1 where s1: "ln_tile (cluster_cores cl ncl n) l ifm t st = Inr st1"
    and o1: "ofmap st1 = (\<lambda>a. if a \<in> tile_cells (unat (batch_size l)) (unat (seq_len l))
                                  (unat (ln_tile_seq_len l)) (unat (embeddings l)) t
                        then ln_norm (float_to_int32 (eps l)) (unat (embeddings l)) ifm
                               (a div unat (embeddings l) * unat (embeddings l))
                               (a mod unat (embeddings l))
                        else ofmap st a)"
    by blast
  from Cons.IH [of st1]
  obtain st2 where s2: "ln_tiles (cluster_cores cl ncl n) l ifm ts st1 = Inr st2"
    and o2: "ofmap st2 = (\<lambda>a. if a \<in> (\<Union>t\<in>set ts. tile_cells (unat (batch_size l)) (unat (seq_len l))
                                  (unat (ln_tile_seq_len l)) (unat (embeddings l)) t)
                        then ln_norm (float_to_int32 (eps l)) (unat (embeddings l)) ifm
                               (a div unat (embeddings l) * unat (embeddings l))
                               (a mod unat (embeddings l))
                        else ofmap st1 a)"
    by blast
  have "ln_tiles (cluster_cores cl ncl n) l ifm (t # ts) st = Inr st2"
    by (simp add: s1 s2)
  moreover have "ofmap st2 = (\<lambda>a. if a \<in> (\<Union>t\<in>set (t # ts). tile_cells (unat (batch_size l)) (unat (seq_len l))
                                  (unat (ln_tile_seq_len l)) (unat (embeddings l)) t)
                        then ln_norm (float_to_int32 (eps l)) (unat (embeddings l)) ifm
                               (a div unat (embeddings l) * unat (embeddings l))
                               (a mod unat (embeddings l))
                        else ofmap st a)"
    unfolding o2 o1 by (auto simp: fun_eq_iff)
  ultimately show ?case by blast
qed

lemma tile_cells_union:
  "(\<Union>t\<in>set [0..<k]. tile_cells B S T E t) = tile_cells B S (k * T) E 0"
proof (intro set_eqI iffI)
  fix a assume "a \<in> (\<Union>t\<in>set [0..<k]. tile_cells B S T E t)"
  then obtain t b s i where h: "t < k" "b < B" "s < T" "i < E" "a = (b * S + (t * T + s)) * E + i"
    unfolding tile_cells_def by auto
  have "Suc t * T \<le> k * T" using h(1) by (intro mult_le_mono1) simp
  then have "t * T + s < k * T" using h(3) by simp
  moreover have "a = (b * S + (0 * (k * T) + (t * T + s))) * E + i" using h(5) by simp
  ultimately show "a \<in> tile_cells B S (k * T) E 0"
    unfolding tile_cells_def using h(2,4) by blast
next
  fix a assume "a \<in> tile_cells B S (k * T) E 0"
  then obtain b R i where h: "b < B" "R < k * T" "i < E" "a = (b * S + R) * E + i"
    unfolding tile_cells_def by auto
  have Tpos: "0 < T" using h(2) by (cases T) auto
  have "R div T < k" using h(2) Tpos by (simp add: less_mult_imp_div_less)
  moreover have "R mod T < T" using Tpos by simp
  moreover have "a = (b * S + (R div T * T + R mod T)) * E + i" using h(4) by simp
  ultimately have "a \<in> tile_cells B S T E (R div T)"
    unfolding tile_cells_def using h(1,3) by blast
  then show "a \<in> (\<Union>t\<in>set [0..<k]. tile_cells B S T E t)"
    using \<open>R div T < k\<close> by auto
qed

text \<open>The FP32 paths on a single cluster, for any admissible number of tiles.\<close>

lemma layernorm_layer_naive:
  assumes n: "n + 1 < 2 ^ 32" "0 < n"
    and l: "baseline l = 1 \<or> 8 dvd unat (embeddings l) \<and> 0 < unat (embeddings l)" "dtype l = FP32"
    and k: "n_tiles l \<noteq> 0" "unat (n_tiles l) dvd unat (seq_len l)"
    and d: "n dvd unat (seq_len l) div unat (n_tiles l)"
  shows "layernorm_layer (cluster_cores cl ncl n) 0 1 l ifm st =
     Inr (\<lambda>a. if a \<in> tile_cells (unat (batch_size l)) (unat (seq_len l)) (unat (seq_len l))
                       (unat (embeddings l)) 0
               then ln_norm (float_to_int32 (eps l)) (unat (embeddings l)) ifm
                      (a div unat (embeddings l) * unat (embeddings l))
                      (a mod unat (embeddings l))
               else ofmap st a)"
proof -
  let ?k = "unat (n_tiles l)"
  have T: "unat (ln_tile_seq_len l) = unat (seq_len l) div ?k"
    by (simp add: ln_tile_seq_len_def unat_div)
  have kpos: "0 < ?k" using k(1) by (simp add: unat_gt_0)
  have kT: "?k * unat (ln_tile_seq_len l) = unat (seq_len l)"
    using k(2) by (simp add: T)
  have TS: "unat (ln_tile_seq_len l) \<le> unat (seq_len l)"
    by (simp add: T)
  have d': "n dvd unat (ln_tile_seq_len l)" using d by (simp add: T)
  from ln_tiles_naive [OF n d' l TS, of cl ncl ifm "[0..<?k]" st]
  obtain st' where s: "ln_tiles (cluster_cores cl ncl n) l ifm [0..<?k] st = Inr st'"
    and o: "ofmap st' = (\<lambda>a. if a \<in> (\<Union>t\<in>set [0..<?k]. tile_cells (unat (batch_size l)) (unat (seq_len l))
                                  (unat (ln_tile_seq_len l)) (unat (embeddings l)) t)
                        then ln_norm (float_to_int32 (eps l)) (unat (embeddings l)) ifm
                               (a div unat (embeddings l) * unat (embeddings l))
                               (a mod unat (embeddings l))
                        else ofmap st a)"
    by blast
  have m: "map ((+) 0) [0..<?k] = [0..<?k]"
    by (simp add: map_idI)
  have "layernorm_layer (cluster_cores cl ncl n) 0 1 l ifm st = Inr (ofmap st')"
    using k(1) kpos l(2) by (simp add: layernorm_layer_def Let_def m s)
  then show ?thesis unfolding o tile_cells_union kT by simp
qed

text \<open>
  Claim C8, amended (tiling invariance). On a single cluster with \<open>n\<close> compute cores,
  for \<open>dtype = FP32\<close> (the scalar kernel, or the vectorised one on rows of a non-zero
  multiple of 8 elements): when \<open>k\<close> divides \<open>seq_len\<close> and the number of compute
  cores divides the rows of a tile, \<open>seq_len / k\<close>, the layer with \<open>n_tiles = 1\<close> and
  the layer with \<open>n_tiles = k\<close> return the same output feature map, whatever the
  scratchpad held before.
\<close>

theorem tiling_invariance:
  assumes "n + 1 < 2 ^ 32" and "0 < n"
    and "baseline l = 1 \<or> 8 dvd unat (embeddings l) \<and> 0 < unat (embeddings l)"
    and "dtype l = FP32"
    and "k \<noteq> 0" and "unat k dvd unat (seq_len l)"
    and "n dvd unat (seq_len l) div unat k"
    and "ofmap st = ofmap st'"
  shows "layernorm_layer (cluster_cores 0 1 n) 0 1 (l\<lparr>n_tiles := 1\<rparr>) ifm st
           = layernorm_layer (cluster_cores 0 1 n) 0 1 (l\<lparr>n_tiles := k\<rparr>) ifm st'
       \<and> (\<exists>out. layernorm_layer (cluster_cores 0 1 n) 0 1 (l\<lparr>n_tiles := k\<rparr>) ifm st' = Inr out)"
proof -
  have nS: "n dvd unat (seq_len l)"
  proof -
    have "unat (seq_len l) = unat k * (unat (seq_len l) div unat k)"
      using assms(6) by simp
    then show ?thesis using assms(7) by (metis dvd_mult)
  qed
  have one: "layernorm_layer (cluster_cores 0 1 n) 0 1 (l\<lparr>n_tiles := 1\<rparr>) ifm st =
     Inr (\<lambda>a. if a \<in> tile_cells (unat (batch_size l)) (unat (seq_len l)) (unat (seq_len l))
                       (unat (embeddings l)) 0
               then ln_norm (float_to_int32 (eps l)) (unat (embeddings l)) ifm
                      (a div unat (embeddings l) * unat (embeddings l))
                      (a mod unat (embeddings l))
               else ofmap st a)"
    using layernorm_layer_naive [of n "l\<lparr>n_tiles := 1\<rparr>" 0 1 ifm st] assms(1-4) nS
    by (simp cong: if_cong)
  have many: "layernorm_layer (cluster_cores 0 1 n) 0 1 (l\<lparr>n_tiles := k\<rparr>) ifm st' =
     Inr (\<lambda>a. if a \<in> tile_cells (unat (batch_size l)) (unat (seq_len l)) (unat (seq_len l))
                       (unat (embeddings l)) 0
               then ln_norm (float_to_int32 (eps l)) (unat (embeddings l)) ifm
                      (a div unat (embeddings l) * unat (embeddings l))
                      (a mod unat (embeddings l))
               else ofmap st' a)"
    using layernorm_layer_naive [of n "l\<lparr>n_tiles := k\<rparr>" 0 1 ifm st'] assms(1-7)
    by (simp cong: if_cong)
  show ?thesis unfolding one many assms(8) by simp
qed

lemma fold_id: "fold (\<lambda>b y. y) bs y = y"
  by (induction bs) simp_all

lemma naive_no_rows:
  "seq_len' div unat (cluster_compute_core_num c) = 0
     \<Longrightarrow> layernorm_fp32_naive c x y B seq_len' E e = y"
  using fold_id [of "[0..<B]" y] by (simp add: layernorm_fp32_naive_def Let_def id_def)

lemma dma_2d_zero: "dma_2d (\<lambda>a. 0) db (\<lambda>a. 0) sb sz ds ss B = (\<lambda>a. 0)"
  by (induction B) (simp_all add: dma_2d_0 dma_2d_Suc fun_eq_iff)

lemma map_plus_0: "map ((+) (0::nat)) xs = xs"
  by (induction xs) simp_all

lemma upt_3: "[0..<3] = [0, 1, 2]"
  by (simp add: upt_rec)

lemma upt_2: "[0..<2] = [0, 1]"
  by (simp add: upt_rec)

lemma two_tiles_stale:
  "layernorm_layer cluster2 0 1 (ln_cfg_tiles\<lparr>n_tiles := 2\<rparr>) rows02 zero_state
     = Inr (\<lambda>a. 0)"
proof -
  let ?l = "ln_cfg_tiles\<lparr>n_tiles := 2\<rparr>"
  have T: "unat (ln_tile_seq_len ?l) = 1"
    by (simp add: ln_tile_seq_len_def ln_cfg_tiles_def)
  have nc: "unat (cluster_compute_core_num (cluster_core cl ncl 2 i)) = 2" for cl ncl i
    by (simp add: cluster_core_def)
  have k: "layernorm_fp32_naive (cluster_core cl ncl 2 i) x y B T' E e = y"
    if "T' div 2 = 0" for cl ncl i x y B T' E e
    by (rule naive_no_rows) (simp add: nc that)
  have b: "baseline ?l = 1" "dtype ?l = FP32"
    by (simp_all add: ln_cfg_tiles_def)
  have ct: "ln_compute_tile cluster2 ?l x y = Inr y" for x y
    by (simp add: ln_compute_tile_def Let_def cluster2_def cluster_cores_def upt_3 T k b)
  have tile: "\<exists>xi'. ln_tile cluster2 ?l rows02 t
        \<lparr>local_itile = xi, local_otile = (\<lambda>a. 0), ofmap = (\<lambda>a. 0)\<rparr>
      = Inr \<lparr>local_itile = xi', local_otile = (\<lambda>a. 0), ofmap = (\<lambda>a. 0)\<rparr>" for t xi
    by (simp add: ln_tile_def Let_def ct dma_2d_zero)
  have tiles: "\<exists>xi'. ln_tiles cluster2 ?l rows02 ts
        \<lparr>local_itile = xi, local_otile = (\<lambda>a. 0), ofmap = (\<lambda>a. 0)\<rparr>
      = Inr \<lparr>local_itile = xi', local_otile = (\<lambda>a. 0), ofmap = (\<lambda>a. 0)\<rparr>" for ts xi
  proof (induction ts arbitrary: xi)
    case Nil
    show ?case by simp
  next
    case (Cons t ts)
    from tile [of t xi] obtain x1 where
      "ln_tile cluster2 ?l rows02 t
          \<lparr>local_itile = xi, local_otile = (\<lambda>a. 0), ofmap = (\<lambda>a. 0)\<rparr>
        = Inr \<lparr>local_itile = x1, local_otile = (\<lambda>a. 0), ofmap = (\<lambda>a. 0)\<rparr>"
      by blast
    then show ?case using Cons.IH [of x1] by simp
  qed
  have nt: "n_tiles ?l \<noteq> 0" "unat (n_tiles ?l) div 1 \<noteq> 0" "dtype ?l = FP32"
    by (simp_all add: ln_cfg_tiles_def)
  from tiles [of "map (\<lambda>i. 0 * (unat (n_tiles ?l) div 1) + i) [0..<unat (n_tiles ?l) div 1]" "\<lambda>a. 0"]
  obtain xi' where "ln_tiles cluster2 ?l rows02
       (map (\<lambda>i. 0 * (unat (n_tiles ?l) div 1) + i) [0..<unat (n_tiles ?l) div 1]) zero_state
      = Inr \<lparr>local_itile = xi', local_otile = (\<lambda>a. 0), ofmap = (\<lambda>a. 0)\<rparr>"
    unfolding zero_state_def by blast
  then show ?thesis
    unfolding layernorm_layer_def Let_def using nt by (simp add: map_plus_0)
qed

lemma one_tile_normalised:
  "\<exists>out. layernorm_layer cluster2 0 1 (ln_cfg_tiles\<lparr>n_tiles := 1\<rparr>) rows02 zero_state
            = Inr out \<and> out 0 = - 1"
proof -
  let ?l = "ln_cfg_tiles\<lparr>n_tiles := 1\<rparr>"
  have e: "float_to_int32 (eps ?l) = 0"
    by (simp add: float_to_int32_def ln_cfg_tiles_def)
  have c: "(0::nat) \<in> tile_cells 1 2 2 2 0"
    unfolding tile_cells_def by simp
  have v: "ln_norm 0 2 rows02 0 0 = - 1"
    by (simp add: ln_norm_def ln_mean_def ln_var_def upt_2 rows02_def)
  have "layernorm_layer cluster2 0 1 ?l rows02 zero_state =
     Inr (\<lambda>a. if a \<in> tile_cells (unat (batch_size ?l)) (unat (seq_len ?l)) (unat (seq_len ?l))
                       (unat (embeddings ?l)) 0
               then ln_norm (float_to_int32 (eps ?l)) (unat (embeddings ?l)) rows02
                      (a div unat (embeddings ?l) * unat (embeddings ?l))
                      (a mod unat (embeddings ?l))
               else ofmap zero_state a)"
    unfolding cluster2_def by (rule layernorm_layer_naive) (simp_all add: ln_cfg_tiles_def)
  then show ?thesis
    unfolding e using c v by (simp add: ln_cfg_tiles_def)
qed

theorem tiling_invariance_counterexample:
  "layernorm_layer cluster2 0 1 (ln_cfg_tiles\<lparr>n_tiles := 1\<rparr>) rows02 zero_state
     \<noteq> layernorm_layer cluster2 0 1 (ln_cfg_tiles\<lparr>n_tiles := 2\<rparr>) rows02 zero_state"
proof
  assume eq: "layernorm_layer cluster2 0 1 (ln_cfg_tiles\<lparr>n_tiles := 1\<rparr>) rows02 zero_state
     = layernorm_layer cluster2 0 1 (ln_cfg_tiles\<lparr>n_tiles := 2\<rparr>) rows02 zero_state"
  from one_tile_normalised obtain out where
    o: "layernorm_layer cluster2 0 1 (ln_cfg_tiles\<lparr>n_tiles := 1\<rparr>) rows02 zero_state = Inr out"
    and v: "out 0 = - 1" by blast
  from eq o two_tiles_stale have "out = (\<lambda>a. 0)" by simp
  then show False using v by simp
qed

theorem tiling_invariance_witness:
  "unat (2 :: u32) dvd unat (seq_len ln_cfg_tiles)
   \<and> (1 :: nat) dvd unat (seq_len ln_cfg_tiles) div unat (2 :: u32)
   \<and> layernorm_layer cluster1 0 1 (ln_cfg_tiles\<lparr>n_tiles := 1\<rparr>) rows02 zero_state
       = layernorm_layer cluster1 0 1 (ln_cfg_tiles\<lparr>n_tiles := 2\<rparr>) rows02 zero_state"
proof -
  have h: "(1::nat) + 1 < 2 ^ 32" "0 < (1::nat)"
    "baseline ln_cfg_tiles = 1
       \<or> 8 dvd unat (embeddings ln_cfg_tiles) \<and> 0 < unat (embeddings ln_cfg_tiles)"
    "dtype ln_cfg_tiles = FP32"
    "(2 :: u32) \<noteq> 0" "unat (2 :: u32) dvd unat (seq_len ln_cfg_tiles)"
    "(1 :: nat) dvd unat (seq_len ln_cfg_tiles) div unat (2 :: u32)"
    "ofmap zero_state = ofmap zero_state"
    by (simp_all add: ln_cfg_tiles_def)
  from tiling_invariance [OF h, of rows02] h(6,7) show ?thesis unfolding cluster1_def by blast
qed

lemma float_to_int32_small: "0 \<le> x \<Longrightarrow> x < 1 \<Longrightarrow> float_to_int32 x = 0"
  by (simp add: float_to_int32_def floor_eq_iff)

text \<open>An \<open>eps\<close> in \<open>[0, 1)\<close> has no effect on the computation of a tile.\<close>

lemma eps_below_one_ignored:
  assumes "0 \<le> eps l" and "eps l < 1"
  shows "ln_compute_tile cores l x y = ln_compute_tile cores (l\<lparr>eps := 0\<rparr>) x y"
  using assms
  by (simp add: ln_compute_tile_def ln_tile_seq_len_def float_to_int32_small cong: if_cong)

lemma tile_cells_row0: "tile_cells 1 1 1 2 0 = {0, 1}"
proof -
  have "(\<exists>i<2. a = i) \<longleftrightarrow> a = 0 \<or> a = Suc 0" for a :: nat
    by auto
  then show ?thesis
    unfolding tile_cells_def by (auto simp: numeral_2_eq_2)
qed

lemma ln_norm_rows02:
  "ln_norm 0 2 rows02 0 0 = - 1" "ln_norm 0 2 rows02 0 (Suc 0) = 1"
  by (simp_all add: ln_norm_def ln_mean_def ln_var_def upt_2 rows02_def)

text \<open>
  Claim C3 (LayerNorm formula, the \<open>eps\<close> of the record). The row \<open>0, 2\<close> with
  \<open>eps = 1/2\<close>: the layer stores \<open>-1, 1\<close>, the quotient by \<open>sqrt (variance + 0)\<close>, because
  the kernel receives \<open>eps\<close> as an \<open>int32_t\<close>; the formula of the claim with the \<open>eps\<close>
  of the record gives \<open>-1 / sqrt (3/2), 1 / sqrt (3/2)\<close>.
\<close>

theorem layernorm_eps_truncated:
  "layernorm_layer cluster1 0 1 ln_cfg_eps rows02 zero_state
     = Inr (\<lambda>a. if a = 0 then - 1 else if a = 1 then 1 else 0)
   \<and> spec_layernorm_row (eps ln_cfg_eps) [rows02 0, rows02 1]
       = [- 1 / sqrt (3 / 2), 1 / sqrt (3 / 2)]
   \<and> - 1 / sqrt (3 / 2) \<noteq> (- 1 :: real)"
proof -
  have e: "float_to_int32 (eps ln_cfg_eps) = 0"
    by (simp add: float_to_int32_small ln_cfg_eps_def)
  have "layernorm_layer cluster1 0 1 ln_cfg_eps rows02 zero_state =
     Inr (\<lambda>a. if a \<in> tile_cells (unat (batch_size ln_cfg_eps)) (unat (seq_len ln_cfg_eps))
                       (unat (seq_len ln_cfg_eps)) (unat (embeddings ln_cfg_eps)) 0
               then ln_norm (float_to_int32 (eps ln_cfg_eps)) (unat (embeddings ln_cfg_eps)) rows02
                      (a div unat (embeddings ln_cfg_eps) * unat (embeddings ln_cfg_eps))
                      (a mod unat (embeddings ln_cfg_eps))
               else ofmap zero_state a)"
    unfolding cluster1_def by (rule layernorm_layer_naive) (simp_all add: ln_cfg_eps_def)
  also have "\<dots> = Inr (\<lambda>a. if a \<in> tile_cells 1 1 1 2 0
               then ln_norm 0 2 rows02 (a div 2 * 2) (a mod 2) else 0)"
    unfolding e by (simp add: ln_cfg_eps_def zero_state_def cong: if_cong)
  also have "\<dots> = Inr (\<lambda>a. if a = 0 then - 1 else if a = 1 then 1 else 0)"
    unfolding tile_cells_row0 by (auto simp: fun_eq_iff ln_norm_rows02)
  finally have a: "layernorm_layer cluster1 0 1 ln_cfg_eps rows02 zero_state
     = Inr (\<lambda>a. if a = 0 then - 1 else if a = 1 then 1 else 0)" .
  have b: "spec_layernorm_row (eps ln_cfg_eps) [rows02 0, rows02 1]
       = [- 1 / sqrt (3 / 2), 1 / sqrt (3 / 2)]"
    by (simp add: spec_layernorm_row_def spec_mean_def spec_variance_def rows02_def ln_cfg_eps_def
        power2_eq_square)
  have "sqrt (3 / 2) \<noteq> 1"
    by (simp add: real_sqrt_eq_1_iff)
  then have c: "- 1 / sqrt (3 / 2) \<noteq> (- 1 :: real)"
    by (simp add: field_simps)
  show ?thesis using a b c by blast
qed

text \<open>The half-precision vectorised kernel never stores to the output tile.\<close>

lemma fold_fold_id: "fold (\<lambda>b y. fold (\<lambda>s y'. y') ss y) bs y = y"
  by (induction bs) (simp_all add: fold_id)

lemma fp16_opt_no_store:
  "layernorm_fp16_opt c x y B T E e = Inr y' \<Longrightarrow> y' = y"
  unfolding layernorm_fp16_opt_def Let_def fold_fold_id by (simp split: if_splits)

lemma naive16_rows02:
  "layernorm_fp16_naive core0 rows02 (\<lambda>a. 0) 1 1 16 0 0 = - 1"
proof -
  have g1: "(\<Sum>i<2 * n. rows02 i) = 2 * real n" for n
    by (induction n) (simp_all add: rows02_def)
  have g2: "(\<Sum>i<2 * n. (rows02 i - 1) * (rows02 i - 1)) = 2 * real n" for n
    by (induction n) (simp_all add: rows02_def)
  have s1: "(\<Sum>i<16. rows02 i) = 16"
    using g1 [of 8] by simp
  have m: "ln_mean rows02 0 16 = 1"
    by (simp add: ln_mean_def fold_add_sum s1)
  have s2: "(\<Sum>i<16. (rows02 i - 1) * (rows02 i - 1)) = 16"
    using g2 [of 8] by simp
  have v: "ln_var rows02 0 16 0 1 = 1"
    by (simp add: ln_var_def fold_add_sum s2)
  have c: "snrt_is_compute_core core0"
    by (simp add: snrt_is_compute_core_def core0_def)
  have "layernorm_fp16_naive core0 rows02 (\<lambda>a. 0) 1 1 16 0 = ln_row 0 16 rows02 0 (\<lambda>a. 0)"
    using c by (simp add: layernorm_fp16_naive_def Let_def core0_def)
  then have "layernorm_fp16_naive core0 rows02 (\<lambda>a. 0) 1 1 16 0 0 = ln_norm 0 16 rows02 0 0"
    by (simp add: ln_row_eq)
  also have "\<dots> = rows02 0 - 1"
    by (simp add: ln_norm_def m v)
  also have "\<dots> = - 1"
    by (simp add: rows02_def)
  finally show ?thesis .
qed

text \<open>
  Claim C6 (vectorised against scalar). A tile of one row \<open>0, 2, \<dots>, 0, 2\<close> of sixteen
  half-precision elements, the output tile holding zeros: \<open>layernorm_fp16_opt\<close> returns
  the output tile as it was, where the scalar \<open>layernorm_fp16_naive\<close> stores \<open>-1\<close> in
  element 0; the layer on the vectorised FP16 path writes the stale tile back.
\<close>

theorem fp16_opt_leaves_output:
  "layernorm_fp16_opt core0 rows02 (\<lambda>a. 0) 1 1 16 0 = Inr (\<lambda>a. 0)
   \<and> layernorm_fp16_naive core0 rows02 (\<lambda>a. 0) 1 1 16 0 0 = - 1
   \<and> layernorm_layer cluster1 0 1 ln_cfg_fp16 rows02 zero_state = Inr (\<lambda>a. 0)"
proof -
  have c: "snrt_is_compute_core core0"
    by (simp add: snrt_is_compute_core_def core0_def)
  have a: "layernorm_fp16_opt core0 rows02 (\<lambda>a. 0) 1 1 16 0 = Inr (\<lambda>a. 0)"
    unfolding layernorm_fp16_opt_def Let_def fold_fold_id using c by (simp add: core0_def)
  have k: "layernorm_fp16_opt c' x y B T 16 e = Inr y" for c' x y B T e
    unfolding layernorm_fp16_opt_def Let_def fold_fold_id by simp
  have b: "baseline ln_cfg_fp16 \<noteq> 1" "dtype ln_cfg_fp16 = FP16" "dtype ln_cfg_fp16 \<noteq> FP32"
    "unat (batch_size ln_cfg_fp16) = 1" "unat (ln_tile_seq_len ln_cfg_fp16) = 1"
    "unat (embeddings ln_cfg_fp16) = 16" "n_tiles ln_cfg_fp16 \<noteq> 0"
    "unat (n_tiles ln_cfg_fp16) div 1 = 1"
    by (simp_all add: ln_cfg_fp16_def ln_tile_seq_len_def)
  have ct: "ln_compute_tile cluster1 ln_cfg_fp16 x y = Inr y" for x y
    by (simp add: ln_compute_tile_def Let_def cluster1_def cluster_cores_def upt_2 b k)
  have tile: "\<exists>xi'. ln_tile cluster1 ln_cfg_fp16 rows02 t zero_state
      = Inr \<lparr>local_itile = xi', local_otile = (\<lambda>a. 0), ofmap = (\<lambda>a. 0)\<rparr>" for t
    by (simp add: ln_tile_def Let_def ct dma_2d_zero zero_state_def)
  then obtain xi' where "ln_tile cluster1 ln_cfg_fp16 rows02 0 zero_state
      = Inr \<lparr>local_itile = xi', local_otile = (\<lambda>a. 0), ofmap = (\<lambda>a. 0)\<rparr>"
    by blast
  then have d: "layernorm_layer cluster1 0 1 ln_cfg_fp16 rows02 zero_state = Inr (\<lambda>a. 0)"
    unfolding layernorm_layer_def Let_def using b by simp
  show ?thesis using a naive16_rows02 d by blast
qed

section \<open>Properties of FlashAttention-2 on memory\<close>

lemma fmax_le_refl: "fmax_le a a"
  by (cases a) simp_all

lemma fmax_le_trans: "fmax_le a b \<Longrightarrow> fmax_le b c \<Longrightarrow> fmax_le a c"
  by (cases a; cases b; cases c) simp_all

lemma m_mono_refl: "m_mono st st"
  by (simp add: m_mono_def fmax_le_refl)

lemma m_mono_trans: "m_mono a b \<Longrightarrow> m_mono b c \<Longrightarrow> m_mono a c"
  unfolding m_mono_def by (blast intro: fmax_le_trans)

lemma m_mono_same: "m_i st' = m_i st \<Longrightarrow> m_mono st st'"
  by (simp add: m_mono_def fmax_le_refl)

lemma fa_row_max_ge: "fmax_le m (fa_row_max S B_c row m)"
proof -
  have "fmax_le m (fold (\<lambda>col m'. let val = S (idx32 row B_c col)
                                  in if gt_fmax val m' then Fin val else m') cols m)" for cols
  proof (induction cols arbitrary: m)
    case Nil
    show ?case by (simp add: fmax_le_refl)
  next
    case (Cons c cols)
    let ?m1 = "let val = S (idx32 row B_c c) in if gt_fmax val m then Fin val else m"
    have "fmax_le m ?m1"
      by (cases m) (simp_all add: Let_def)
    moreover have "fmax_le ?m1 (fold (\<lambda>col m'. let val = S (idx32 row B_c col)
                                  in if gt_fmax val m' then Fin val else m') cols ?m1)"
      by (rule Cons.IH)
    ultimately show ?case
      using fmax_le_trans by simp
  qed
  then show ?thesis by (simp add: fa_row_max_def)
qed

lemma softmax_row_mono:
  assumes "fa_softmax_row t_c B_c d row st = Inr st'"
  shows "m_mono st st'"
proof (cases "fa_row_max (S_fa st) B_c row (m_i st row)")
  case NegInf
  then have "m_i st' = m_i st"
    using assms by (auto simp: fa_softmax_row_def Let_def split: if_splits)
  then show ?thesis by (rule m_mono_same)
next
  case (Fin m)
  then have "m_i st' = (m_i st)(row := Fin m)"
    using assms by (auto simp: fa_softmax_row_def Let_def split: if_splits prod.splits)
  moreover have "fmax_le (m_i st row) (Fin m)"
    using fa_row_max_ge [of "m_i st row" "S_fa st" B_c row] Fin by simp
  ultimately show ?thesis
    by (simp add: m_mono_def fmax_le_refl)
qed

lemma fa_rows_mono:
  assumes "\<And>r s s'. f r s = Inr s' \<Longrightarrow> m_mono s s'"
  shows "fa_rows f rs st = Inr st' \<Longrightarrow> m_mono st st'"
proof (induction rs arbitrary: st)
  case Nil
  then show ?case by (simp add: m_mono_refl)
next
  case (Cons r rs)
  then obtain s1 where s1: "f r st = Inr s1" "fa_rows f rs s1 = Inr st'"
    by (auto split: sum.splits)
  show ?case
    using assms [OF s1(1)] Cons.IH [OF s1(2)] by (rule m_mono_trans)
qed

lemma fa_core_rows_mono:
  assumes "\<And>r s s'. f r s = Inr s' \<Longrightarrow> m_mono s s'"
    and "fa_core_rows B_r nc f c st = Inr st'"
  shows "m_mono st st'"
  using assms(2) fa_rows_mono [of f, OF assms(1)]
  by (auto simp: fa_core_rows_def Let_def split: if_splits)

lemma fa_cores_mono:
  assumes "\<And>c s s'. g c s = Inr s' \<Longrightarrow> m_mono s s'"
  shows "fa_cores g cs st = Inr st' \<Longrightarrow> m_mono st st'"
proof (induction cs arbitrary: st)
  case Nil
  then show ?case by (simp add: m_mono_refl)
next
  case (Cons c cs)
  then obtain s1 where s1: "g c st = Inr s1" "fa_cores g cs s1 = Inr st'"
    by (auto split: sum.splits)
  show ?case
    using assms [OF s1(1)] Cons.IH [OF s1(2)] by (rule m_mono_trans)
qed

lemma fa_inner_mono:
  assumes "fa_inner nc ids l K V t_c st = Inr st'"
  shows "m_mono st st'"
proof -
  let ?d = "unat (fa_d l)" and ?Bc = "unat (fa_B_c l)" and ?Br = "unat (fa_B_r l)"
  let ?off = "unat (of_nat t_c * fa_B_c l * fa_d l)"
  let ?st1 = "st\<lparr>K_fa := dma_2d (K_fa st) 0 K ?off ?d ?d ?d ?Bc,
                  V_fa := dma_2d (V_fa st) 0 V ?off ?d ?d ?d ?Bc\<rparr>"
  let ?st2 = "?st1\<lparr>S_fa := gemm False True ?Br ?Bc ?d 1 (Q_fa ?st1) ?d (K_fa ?st1) ?d 0 (S_fa ?st1) ?Bc\<rparr>"
  from assms obtain st3 where
    c: "fa_cores (fa_core_rows (fa_B_r l) nc (fa_softmax_row t_c (fa_B_c l) (fa_d l))) ids ?st2 = Inr st3"
    and e: "m_i st' = m_i st3"
    by (auto simp: fa_inner_def Let_def split: sum.splits if_splits)
  have "m_mono ?st2 st3"
    using c
  proof (rule fa_cores_mono [rotated])
    fix c s s'
    assume "fa_core_rows (fa_B_r l) nc (fa_softmax_row t_c (fa_B_c l) (fa_d l)) c s = Inr s'"
    then show "m_mono s s'"
      by (rule fa_core_rows_mono [rotated]) (rule softmax_row_mono)
  qed
  then show ?thesis
    using e by (simp add: m_mono_def)
qed

lemma fa_inner_loop_mono:
  "fa_inner_loop nc ids l K V ts st = Inr st' \<Longrightarrow> m_mono st st'"
proof (induction ts arbitrary: st)
  case Nil
  then show ?case by (simp add: m_mono_refl)
next
  case (Cons t ts)
  then obtain s1 where s1: "fa_inner nc ids l K V t st = Inr s1"
    "fa_inner_loop nc ids l K V ts s1 = Inr st'"
    by (auto split: sum.splits)
  show ?case
    using fa_inner_mono [OF s1(1)] Cons.IH [OF s1(2)] by (rule m_mono_trans)
qed

lemma fa_inner_loop_append:
  "fa_inner_loop nc ids l K V (ts @ us) st =
     (case fa_inner_loop nc ids l K V ts st of
        Inl e \<Rightarrow> Inl e
      | Inr st' \<Rightarrow> fa_inner_loop nc ids l K V us st')"
  by (induction ts arbitrary: st) (simp_all split: sum.splits)

text \<open>The reset of the statistics.\<close>

lemma init_rows_reset:
  "reset_on R st \<Longrightarrow> \<exists>st'. fa_rows fa_init_row rs st = Inr st' \<and> reset_on (R \<union> set rs) st'"
proof (induction rs arbitrary: st R)
  case Nil
  then show ?case by simp
next
  case (Cons r rs)
  let ?s1 = "st\<lparr>m_i := (m_i st)(r := NegInf), m_i_prev := (m_i_prev st)(r := NegInf),
              l_i := (l_i st)(r := 0)\<rparr>"
  have "reset_on (insert r R) ?s1"
    using Cons.prems by (simp add: reset_on_def)
  from Cons.IH [OF this] obtain st' where
    "fa_rows fa_init_row rs ?s1 = Inr st'" "reset_on (insert r R \<union> set rs) st'"
    by blast
  moreover have "fa_init_row r st = Inr ?s1"
    by (simp add: fa_init_row_def)
  ultimately show ?case by simp
qed

lemma row_loop_core:
  assumes nz: "nc \<noteq> 0" and dv: "unat nc dvd unat B_r" and i: "i < unat nc"
  shows "row_loop (start_row B_r nc (of_nat i)) (end_row B_r nc (of_nat i))
     = [unat B_r div unat nc * i ..< unat B_r div unat nc * i + unat B_r div unat nc]"
proof -
  define rpc where "rpc = unat B_r div unat nc"
  have rpc: "unat (rows_per_core B_r nc) = rpc"
    by (simp add: rows_per_core_def unat_div rpc_def)
  have full: "rpc * unat nc = unat B_r"
    using dv by (simp add: rpc_def)
  have "unat nc < 2 ^ 32" using unsigned_less [of nc] by simp
  then have ui: "unat (of_nat i :: u32) = i"
    using i by (simp add: unat_of_nat take_bit_nat_eq_self)
  have "rpc * (i + 1) \<le> rpc * unat nc"
    using i by (intro mult_le_mono2) simp
  then have le: "rpc * i + rpc \<le> unat B_r"
    using full by simp
  have lt: "unat B_r < 2 ^ 32" using unsigned_less [of B_r] by simp
  have s: "unat (start_row B_r nc (of_nat i)) = rpc * i"
  proof -
    have "unat (rows_per_core B_r nc) * unat (of_nat i :: u32) < 2 ^ LENGTH(32)"
      using le lt rpc ui by simp
    then show ?thesis
      by (simp add: start_row_def unat_mult_lem [THEN iffD1] rpc ui)
  qed
  have e: "unat (end_row B_r nc (of_nat i)) = rpc * i + rpc"
  proof -
    have "unat (start_row B_r nc (of_nat i)) + unat (rows_per_core B_r nc) < 2 ^ LENGTH(32)"
      using le lt rpc s by simp
    then show ?thesis
      by (simp add: end_row_def unat_add_lem [THEN iffD1] rpc s)
  qed
  show ?thesis
    unfolding row_loop_def s e rpc_def ..
qed

lemma init_stats_reset:
  assumes nz: "nc \<noteq> 0" and dv: "unat nc dvd unat (fa_B_r l)"
    and small: "unat (fa_B_r l) \<le> 2 ^ 31"
  shows "\<exists>st'. fa_init_stats nc (map of_nat [0..<unat nc]) l st = Inr st'
      \<and> reset_on {..<unat (fa_B_r l)} st'"
proof -
  define rpc where "rpc = unat (fa_B_r l) div unat nc"
  have full: "rpc * unat nc = unat (fa_B_r l)"
    using dv by (simp add: rpc_def)
  have pre: "\<exists>st'. fa_cores (fa_core_rows (fa_B_r l) nc fa_init_row) (map of_nat [0..<n]) st = Inr st'
      \<and> reset_on {..<rpc * n} st'" if "n \<le> unat nc" for n
    using that
  proof (induction n)
    case 0
    show ?case by (simp add: reset_on_def)
  next
    case (Suc n)
    then obtain s1 where s1: "fa_cores (fa_core_rows (fa_B_r l) nc fa_init_row) (map of_nat [0..<n]) st = Inr s1"
      and r1: "reset_on {..<rpc * n} s1"
      by auto
    have n: "n < unat nc" using Suc.prems by simp
    have rows: "row_loop (start_row (fa_B_r l) nc (of_nat n)) (end_row (fa_B_r l) nc (of_nat n))
        = [rpc * n ..< rpc * n + rpc]"
      unfolding rpc_def by (rule row_loop_core [OF nz dv n])
    have "rpc * (n + 1) \<le> rpc * unat nc"
      using n by (intro mult_le_mono2) simp
    then have le: "rpc * n + rpc \<le> unat (fa_B_r l)"
      using full by simp
    have ok: "list_all (\<lambda>r. r < unat (fa_B_r l) \<and> r < 2 ^ 31) [rpc * n ..< rpc * n + rpc]"
      unfolding list_all_iff using le small by auto
    from init_rows_reset [OF r1, of "[rpc * n ..< rpc * n + rpc]"]
    obtain s2 where s2: "fa_rows fa_init_row [rpc * n ..< rpc * n + rpc] s1 = Inr s2"
      and r2: "reset_on ({..<rpc * n} \<union> set [rpc * n ..< rpc * n + rpc]) s2"
      by blast
    have "{..<rpc * n} \<union> set [rpc * n ..< rpc * n + rpc] = {..<rpc * Suc n}"
      by auto
    then have r2': "reset_on {..<rpc * Suc n} s2" using r2 by simp
    have core: "fa_core_rows (fa_B_r l) nc fa_init_row (of_nat n) s1 = Inr s2"
      using ok by (simp add: fa_core_rows_def Let_def rows s2)
    have app: "fa_cores g (cs @ [c]) s = (case fa_cores g cs s of Inl e \<Rightarrow> Inl e | Inr s' \<Rightarrow> g c s')"
      for g cs c s
      by (induction cs arbitrary: s) (simp_all split: sum.splits)
    have "fa_cores (fa_core_rows (fa_B_r l) nc fa_init_row) (map of_nat [0..<Suc n]) st = Inr s2"
      by (simp add: app s1 core)
    then show ?case using r2' by blast
  qed
  from pre [of "unat nc"] show ?thesis
    using nz by (simp add: fa_init_stats_def full)
qed

lemma cfg0:
  "fa_N fa_cfg0 = 2" "fa_d fa_cfg0 = 1" "fa_B_r fa_cfg0 = 2" "fa_B_c fa_cfg0 = 1"
  "fa_baseline fa_cfg0 = 1"
  by (simp_all add: fa_cfg0_def)

lemma cfg3:
  "fa_N fa_cfg3 = 3" "fa_d fa_cfg3 = 1" "fa_B_r fa_cfg3 = 1" "fa_B_c fa_cfg3 = 1"
  "fa_baseline fa_cfg3 = 1"
  by (simp_all add: fa_cfg3_def)

lemma cfg0_opt:
  "fa_N fa_cfg0_opt = 2" "fa_d fa_cfg0_opt = 1" "fa_B_r fa_cfg0_opt = 2" "fa_B_c fa_cfg0_opt = 1"
  "fa_baseline fa_cfg0_opt = 0"
  by (simp_all add: fa_cfg0_opt_def)

lemma rows_2_1_0: "row_loop (start_row 2 1 0) (end_row 2 1 0) = [0, 1]"
  by (simp add: row_loop_def start_row_def end_row_def rows_per_core_def upt_2)

lemma rows_1_1_0: "row_loop (start_row 1 1 0) (end_row 1 1 0) = [0]"
  by (simp add: row_loop_def start_row_def end_row_def rows_per_core_def)

lemma idx32_small: "idx32 0 1 0 = 0" "idx32 1 1 0 = 1" "idx32 (Suc 0) 1 0 = 1"
  by (simp_all add: idx32_def)

lemmas fa_eval = fa_after_tiles_def fa_init_stats_def fa_load_Q_def dma_2d_def upt_2
  fa_inner_def Let_def gemm_def fa_core_rows_def rows_2_1_0 rows_1_1_0 fa_softmax_row_def
  fa_row_max_def fa_row_exp_def fa_init_row_def Q_ones_def K_01_def V_10_def tcdm0_def
  flashattention_2_layer_def fa_outer_def fa_finish_def fa_normalize_row_def
  transpose_kernel_def idx32_small cfg0 cfg3 cfg0_opt

text \<open>Facts about \<open>e\<close>.\<close>

lemma exp1_ge_2: "2 \<le> exp (1::real)"
  using exp_ge_add_one_self [of "1::real"] by simp

lemma exp_m1: "exp (- 1 :: real) = 1 / exp 1"
  by (simp add: exp_minus inverse_eq_divide)

lemma gap_value: "1 / (exp (- 1) * (exp (- 1) + 1)) - 1 / (1 + exp 1) = exp 1 - (1::real)"
proof -
  define E where "E = exp (1::real)"
  have p: "0 < E" by (simp add: E_def)
  then have q: "1 + E \<noteq> 0" by linarith
  have "1 / ((1 / E) * ((1 / E) + 1)) = E * E / (1 + E)"
    using p by (simp add: field_simps)
  moreover have "E * E / (1 + E) - 1 / (1 + E) = (E * E - 1) / (1 + E)"
    by (simp add: diff_divide_distrib)
  moreover have "E * E - 1 = (E - 1) * (1 + E)"
    by (simp add: algebra_simps)
  ultimately have "1 / ((1 / E) * ((1 / E) + 1)) - 1 / (1 + E) = E - 1"
    using q by simp
  then show ?thesis unfolding exp_m1 E_def .
qed

lemma softmax_prefix_2:
  "softmax_prefix Q_ones K_01 V_10 1 2 0 0 = 1 / (1 + exp 1)"
  "softmax_prefix Q_ones K_01 V_10 (Suc 0) 2 0 0 = 1 / (1 + exp 1)"
  by (simp_all add: softmax_prefix_def score_def Q_ones_def K_01_def V_10_def numeral_2_eq_2)

text \<open>
  Claim C2 (prefix correctness of the rescaling). One row, column tiles of one column,
  scores \<open>0, 1\<close>, values \<open>1, 0\<close>: after the column tiles 0 and 1 the accumulated row is
  \<open>O = 1 / exp (-1)\<close> (the old \<open>O = 1\<close> divided by \<open>shifted_exp = exp (0 - 1)\<close>) and
  \<open>l_i = exp (-1) + 1\<close>; the softmax-weighted sum over the two columns is
  \<open>1 / (1 + exp 1)\<close>, and \<open>O / l_i\<close> exceeds it by \<open>exp 1 - 1\<close>.
\<close>

theorem prefix_rescaling_mismatch:
  "\<exists>st. fa_after_tiles 1 [0] fa_cfg3 Q_ones K_01 V_10 0 2 tcdm0 = Inr st
      \<and> m_i_prev st 0 = Fin 0 \<and> m_i st 0 = Fin 1
      \<and> O_fa st 0 = 1 / exp (- 1) \<and> l_i st 0 = exp (- 1) + 1
      \<and> softmax_prefix Q_ones K_01 V_10 1 2 0 0 = 1 / (1 + exp 1)
      \<and> O_fa st 0 / l_i st 0 - softmax_prefix Q_ones K_01 V_10 1 2 0 0 = exp 1 - 1
      \<and> 1 \<le> O_fa st 0 / l_i st 0 - softmax_prefix Q_ones K_01 V_10 1 2 0 0"
proof -
  have "fa_after_tiles 1 [0] fa_cfg3 Q_ones K_01 V_10 0 2 tcdm0 =
     Inr \<lparr>Q_fa = (\<lambda>a. 0)(0 := 1), K_fa = (\<lambda>a. 0)(0 := 1),
            V_fa = (\<lambda>a. 0)(0 := 0), S_fa = (\<lambda>a. 0)(0 := 1),
            P_fa = (\<lambda>a. 0)(0 := 1), O_fa = (\<lambda>a. 0)(0 := 1 / exp (- 1)),
            m_i = (\<lambda>a. NegInf)(0 := Fin 1),
            m_i_prev = (\<lambda>a. NegInf)(0 := Fin 0),
            l_i = (\<lambda>a. 0)(0 := exp (- 1) + 1), V_t = \<lambda>a. 0, O_l3 = \<lambda>a. 0\<rparr>"
    by (simp add: fa_eval)
  moreover have "(1 / exp (- 1)) / (exp (- 1) + 1) - 1 / (1 + exp 1) = exp 1 - (1::real)"
    using gap_value by simp
  ultimately show ?thesis
    using exp1_ge_2 by (simp add: softmax_prefix_2)
qed

lemma layer_value:
  "flashattention_2_layer 1 [0] fa_cfg0 Q_ones K_01 V_10 tcdm0
     = Inr ((\<lambda>a. 0)(0 := 1 / (exp (- 1) * (exp (- 1) + 1)),
                    Suc 0 := 1 / (exp (- 1) * (exp (- 1) + 1))))"
proof -
  have "exp (- 1) + 1 \<noteq> (0::real)"
    using exp_gt_zero [of "- 1 :: real"] by linarith
  then show ?thesis by (simp add: fa_eval)
qed

lemma layer_value_opt:
  "flashattention_2_layer 1 [0] fa_cfg0_opt Q_ones K_01 V_10 tcdm0
     = Inr ((\<lambda>a. 0)(0 := 1 / (exp (- 1) * (exp (- 1) + 1)),
                    Suc 0 := 1 / (exp (- 1) * (exp (- 1) + 1))))"
proof -
  have "exp (- 1) + 1 \<noteq> (0::real)"
    using exp_gt_zero [of "- 1 :: real"] by linarith
  then show ?thesis by (simp add: fa_eval)
qed

text \<open>
  Claim C1 (the output is \<open>softmax(Q K\<^sup>T) \<cdot> V\<close>). \<open>N = 2\<close>, \<open>d = 1\<close>, \<open>B_r = 2\<close>,
  \<open>B_c = 1\<close>, one compute core, scores \<open>0, 1\<close> in every row, values \<open>1, 0\<close>: on the baseline
  and on the optimised path the kernel writes \<open>1 / (exp (-1) * (exp (-1) + 1))\<close>, about
  1.99, to \<open>O[0]\<close>, where the reference is \<open>1 / (1 + exp 1)\<close>, about 0.27; the difference
  is \<open>exp 1 - 1\<close>.
\<close>

theorem attention_output_mismatch:
  "\<exists>out. flashattention_2_layer 1 [0] fa_cfg0 Q_ones K_01 V_10 tcdm0 = Inr out
       \<and> flashattention_2_layer 1 [0] fa_cfg0_opt Q_ones K_01 V_10 tcdm0 = Inr out
       \<and> out 0 = 1 / (exp (- 1) * (exp (- 1) + 1))
       \<and> attention_reference Q_ones K_01 V_10 2 1 0 0 = 1 / (1 + exp 1)
       \<and> out 0 - attention_reference Q_ones K_01 V_10 2 1 0 0 = exp 1 - 1
       \<and> 1 \<le> out 0 - attention_reference Q_ones K_01 V_10 2 1 0 0"
  using exp1_ge_2 gap_value
  by (simp add: layer_value layer_value_opt attention_reference_def softmax_prefix_2)

text \<open>
  Claim C5 (running maximum and reset). Let the number of compute cores be non-zero and
  divide \<open>B_r\<close>, the compute cores have the global indices \<open>0 .. num_cores - 1\<close>, and
  \<open>B_r\<close> fit the \<open>int\<close> subscript. In every row block \<open>t_r\<close>, from any scratchpad
  contents: before the first column tile the statistics of every row of the block are
  \<open>m_i = -\<infinity>\<close>, \<open>m_i_prev = -\<infinity>\<close>, \<open>l_i = 0\<close>; and for \<open>m \<le> n\<close> no running maximum
  after \<open>n\<close> column tiles is below its value after \<open>m\<close> column tiles.
\<close>

theorem running_max_monotone:
  assumes "nc \<noteq> 0" and "unat nc dvd unat (fa_B_r l)" and "unat (fa_B_r l) \<le> 2 ^ 31"
  shows "(\<exists>s0. fa_after_tiles nc (map of_nat [0..<unat nc]) l Q K V t_r 0 st = Inr s0
            \<and> (\<forall>row<unat (fa_B_r l).
                  m_i s0 row = NegInf \<and> m_i_prev s0 row = NegInf \<and> l_i s0 row = 0))
       \<and> (\<forall>m n sm sn row.
             m \<le> n
             \<and> fa_after_tiles nc (map of_nat [0..<unat nc]) l Q K V t_r m st = Inr sm
             \<and> fa_after_tiles nc (map of_nat [0..<unat nc]) l Q K V t_r n st = Inr sn
             \<longrightarrow> fmax_le (m_i sm row) (m_i sn row))"
proof -
  let ?ids = "map of_nat [0..<unat nc] :: u32 list"
  from init_stats_reset [OF assms, of "fa_load_Q l Q t_r st"]
  obtain s0 where i: "fa_init_stats nc ?ids l (fa_load_Q l Q t_r st) = Inr s0"
    and r: "reset_on {..<unat (fa_B_r l)} s0"
    by blast
  have a: "fa_after_tiles nc ?ids l Q K V t_r 0 st = Inr s0"
    by (simp add: fa_after_tiles_def i)
  have b: "\<forall>row<unat (fa_B_r l). m_i s0 row = NegInf \<and> m_i_prev s0 row = NegInf \<and> l_i s0 row = 0"
    using r by (simp add: reset_on_def)
  have c: "fmax_le (m_i sm row) (m_i sn row)"
    if mn: "m \<le> n"
      and sm: "fa_after_tiles nc ?ids l Q K V t_r m st = Inr sm"
      and sn: "fa_after_tiles nc ?ids l Q K V t_r n st = Inr sn"
    for m n sm sn row
  proof -
    have sm': "fa_inner_loop nc ?ids l K V [0..<m] s0 = Inr sm"
      using sm by (simp add: fa_after_tiles_def i)
    have sn': "fa_inner_loop nc ?ids l K V [0..<n] s0 = Inr sn"
      using sn by (simp add: fa_after_tiles_def i)
    have "[0..<n] = [0..<m] @ [m..<n]"
      using mn by (metis le_add_diff_inverse upt_add_eq_append zero_le)
    then have "fa_inner_loop nc ?ids l K V [m..<n] sm = Inr sn"
      using sn' sm' by (simp add: fa_inner_loop_append)
    then have "m_mono sm sn" by (rule fa_inner_loop_mono)
    then show ?thesis by (simp add: m_mono_def)
  qed
  show ?thesis using a b c by blast
qed

theorem running_max_monotone_witness:
  "(1 :: u32) \<noteq> 0 \<and> unat (1 :: u32) dvd unat (fa_B_r fa_cfg3)
   \<and> (\<exists>s1 s2. fa_after_tiles 1 [0] fa_cfg3 Q_ones K_01 V_10 0 1 tcdm0 = Inr s1
         \<and> fa_after_tiles 1 [0] fa_cfg3 Q_ones K_01 V_10 0 2 tcdm0 = Inr s2
         \<and> m_i s1 0 = Fin 0 \<and> m_i s2 0 = Fin 1
         \<and> fmax_le (m_i s1 0) (m_i s2 0))"
proof -
  have h: "(1 :: u32) \<noteq> 0" "unat (1 :: u32) dvd unat (fa_B_r fa_cfg3)"
    "unat (fa_B_r fa_cfg3) \<le> 2 ^ 31"
    by (simp_all add: cfg3)
  have ids: "map of_nat [0..<unat (1 :: u32)] = [0 :: u32]"
    by simp
  have e1: "fa_after_tiles 1 [0] fa_cfg3 Q_ones K_01 V_10 0 1 tcdm0 =
     Inr \<lparr>Q_fa = (\<lambda>a. 0)(0 := 1), K_fa = (\<lambda>a. 0)(0 := 0),
            V_fa = (\<lambda>a. 0)(0 := 1), S_fa = (\<lambda>a. 0)(0 := 0),
            P_fa = (\<lambda>a. 0)(0 := 1), O_fa = (\<lambda>a. 0)(0 := 1),
            m_i = (\<lambda>a. NegInf)(0 := Fin 0),
            m_i_prev = (\<lambda>a. NegInf)(0 := NegInf),
            l_i = (\<lambda>a. 0)(0 := 1), V_t = \<lambda>a. 0, O_l3 = \<lambda>a. 0\<rparr>"
    by (simp add: fa_eval)
  have e2: "fa_after_tiles 1 [0] fa_cfg3 Q_ones K_01 V_10 0 2 tcdm0 =
     Inr \<lparr>Q_fa = (\<lambda>a. 0)(0 := 1), K_fa = (\<lambda>a. 0)(0 := 1),
            V_fa = (\<lambda>a. 0)(0 := 0), S_fa = (\<lambda>a. 0)(0 := 1),
            P_fa = (\<lambda>a. 0)(0 := 1), O_fa = (\<lambda>a. 0)(0 := 1 / exp (- 1)),
            m_i = (\<lambda>a. NegInf)(0 := Fin 1),
            m_i_prev = (\<lambda>a. NegInf)(0 := Fin 0),
            l_i = (\<lambda>a. 0)(0 := exp (- 1) + 1), V_t = \<lambda>a. 0, O_l3 = \<lambda>a. 0\<rparr>"
    by (simp add: fa_eval)
  from running_max_monotone [OF h, of Q_ones K_01 V_10 0 tcdm0]
  have "\<forall>m n sm sn row.
          m \<le> n
          \<and> fa_after_tiles 1 [0] fa_cfg3 Q_ones K_01 V_10 0 m tcdm0 = Inr sm
          \<and> fa_after_tiles 1 [0] fa_cfg3 Q_ones K_01 V_10 0 n tcdm0 = Inr sn
          \<longrightarrow> fmax_le (m_i sm row) (m_i sn row)"
    unfolding ids by blast
  then have "fmax_le (m_i s1 0) (m_i s2 0)"
    if "fa_after_tiles 1 [0] fa_cfg3 Q_ones K_01 V_10 0 1 tcdm0 = Inr s1"
      "fa_after_tiles 1 [0] fa_cfg3 Q_ones K_01 V_10 0 2 tcdm0 = Inr s2" for s1 s2
    using that by (metis one_le_numeral)
  then show ?thesis
    using h(1,2) e1 e2 by simp
qed

text \<open>
  With at least one column per tile the column-tile loop of a row block never stops:
  the scan makes the maximum of a row finite, so \<open>shifted_exp\<close> is positive from the
  second column tile on.
\<close>

lemma row_max_fin:
  assumes "Bc \<noteq> (0::u32)"
  shows "\<exists>m. fa_row_max S Bc row m0 = Fin m"
proof -
  let ?f = "\<lambda>col m'. let val = S (idx32 row Bc col) in if gt_fmax val m' then Fin val else m'"
  have keep: "\<exists>m. fold ?f cols (Fin a) = Fin m" for cols a
  proof (induction cols arbitrary: a)
    case Nil
    show ?case by simp
  next
    case (Cons c cols)
    have "\<exists>b. ?f c (Fin a) = Fin b" by (simp add: Let_def)
    then show ?case using Cons.IH by auto
  qed
  have pos: "0 < unat Bc" using assms by (simp add: unat_gt_0)
  then have "[0..<unat Bc] = 0 # [1..<unat Bc]"
    by (simp add: upt_conv_Cons)
  moreover have "\<exists>b. ?f 0 m0 = Fin b"
    by (cases m0) (simp_all add: Let_def)
  ultimately show ?thesis
    using keep by (auto simp: fa_row_max_def)
qed

lemma mono_fin: "m_mono s s' \<Longrightarrow> m_i s r \<noteq> NegInf \<Longrightarrow> m_i s' r \<noteq> NegInf"
proof -
  assume m: "m_mono s s'" and f: "m_i s r \<noteq> NegInf"
  from m have "fmax_le (m_i s r) (m_i s' r)" by (simp add: m_mono_def)
  then show ?thesis using f by (cases "m_i s r"; cases "m_i s' r") simp_all
qed

lemma fin_on_mono: "m_mono s s' \<Longrightarrow> fin_on R s \<Longrightarrow> fin_on R s'"
  unfolding fin_on_def using mono_fin by blast

lemma fin_on_subset: "fin_on R s \<Longrightarrow> R' \<subseteq> R \<Longrightarrow> fin_on R' s"
  unfolding fin_on_def by blast

lemma fin_on_Un: "fin_on A s \<Longrightarrow> fin_on B s \<Longrightarrow> fin_on (A \<union> B) s"
  unfolding fin_on_def by blast

lemma fin_on_insert: "m_i s r \<noteq> NegInf \<Longrightarrow> fin_on A s \<Longrightarrow> fin_on (insert r A) s"
  unfolding fin_on_def by blast

lemma softmax_row_total:
  assumes bc: "B_c \<noteq> 0" and ok: "t_c = 0 \<or> m_i st row \<noteq> NegInf"
  shows "\<exists>st'. fa_softmax_row t_c B_c d row st = Inr st' \<and> m_i st' row \<noteq> NegInf"
proof -
  from row_max_fin [OF bc] obtain m where
    m: "fa_row_max (S_fa st) B_c row (m_i st row) = Fin m"
    by blast
  obtain P rs where p: "fa_row_exp (S_fa st) B_c row m (P_fa st) = (P, rs)"
    by (cases "fa_row_exp (S_fa st) B_c row m (P_fa st)") auto
  show ?thesis
  proof (cases "t_c = 0")
    case True
    then show ?thesis by (simp add: fa_softmax_row_def Let_def m p)
  next
    case False
    then obtain mp where mp: "m_i st row = Fin mp"
      using ok by (cases "m_i st row") auto
    have m': "fa_row_max (S_fa st) B_c row (Fin mp) = Fin m"
      using m mp by simp
    have "exp (mp - m) \<noteq> 0" by simp
    then show ?thesis using False by (simp add: fa_softmax_row_def Let_def m' p mp)
  qed
qed

lemma softmax_rows_total:
  assumes bc: "B_c \<noteq> 0"
  shows "t_c = 0 \<or> fin_on (set rs) st
     \<Longrightarrow> \<exists>st'. fa_rows (fa_softmax_row t_c B_c d) rs st = Inr st' \<and> fin_on (set rs) st' \<and> m_mono st st'"
proof (induction rs arbitrary: st)
  case Nil
  show ?case by (simp add: fin_on_def m_mono_refl)
next
  case (Cons r rs)
  have "t_c = 0 \<or> m_i st r \<noteq> NegInf"
    using Cons.prems by (auto simp: fin_on_def)
  from softmax_row_total [OF bc this, of d]
  obtain s1 where s1: "fa_softmax_row t_c B_c d r st = Inr s1" and f1: "m_i s1 r \<noteq> NegInf"
    by blast
  have m1: "m_mono st s1" using s1 by (rule softmax_row_mono)
  have "t_c = 0 \<or> fin_on (set rs) s1"
  proof (cases "t_c = 0")
    case True
    then show ?thesis by simp
  next
    case False
    then have "fin_on (set (r # rs)) st" using Cons.prems by simp
    then have "fin_on (set rs) st" by (rule fin_on_subset) auto
    then have "fin_on (set rs) s1" by (rule fin_on_mono [OF m1])
    then show ?thesis by simp
  qed
  from Cons.IH [OF this]
  obtain s2 where s2: "fa_rows (fa_softmax_row t_c B_c d) rs s1 = Inr s2"
    and f2: "fin_on (set rs) s2" and m2: "m_mono s1 s2"
    by blast
  have "m_i s2 r \<noteq> NegInf" using m2 f1 by (rule mono_fin)
  then have "fin_on (set (r # rs)) s2" using f2 by (simp add: fin_on_insert)
  moreover have "m_mono st s2" using m1 m2 by (rule m_mono_trans)
  moreover have "fa_rows (fa_softmax_row t_c B_c d) (r # rs) st = Inr s2"
    by (simp add: s1 s2)
  ultimately show ?case by blast
qed

lemma fa_cores_snoc:
  "fa_cores g (cs @ [c]) s = (case fa_cores g cs s of Inl e \<Rightarrow> Inl e | Inr s' \<Rightarrow> g c s')"
  by (induction cs arbitrary: s) (simp_all split: sum.splits)

lemma softmax_cores_total:
  assumes nz: "nc \<noteq> 0" and dv: "unat nc dvd unat (fa_B_r l)"
    and small: "unat (fa_B_r l) \<le> 2 ^ 31" and bc: "fa_B_c l \<noteq> 0"
    and ok: "t_c = 0 \<or> fin_on {..<unat (fa_B_r l)} st"
  shows "\<exists>st'. fa_cores (fa_core_rows (fa_B_r l) nc (fa_softmax_row t_c (fa_B_c l) (fa_d l)))
                  (map of_nat [0..<unat nc]) st = Inr st'
      \<and> fin_on {..<unat (fa_B_r l)} st'"
proof -
  define rpc where "rpc = unat (fa_B_r l) div unat nc"
  let ?g = "fa_core_rows (fa_B_r l) nc (fa_softmax_row t_c (fa_B_c l) (fa_d l))"
  have full: "rpc * unat nc = unat (fa_B_r l)"
    using dv by (simp add: rpc_def)
  have pre: "\<exists>st'. fa_cores ?g (map of_nat [0..<n]) st = Inr st'
      \<and> fin_on {..<rpc * n} st' \<and> m_mono st st'" if "n \<le> unat nc" for n
    using that
  proof (induction n)
    case 0
    show ?case by (simp add: fin_on_def m_mono_refl)
  next
    case (Suc n)
    then obtain s1 where s1: "fa_cores ?g (map of_nat [0..<n]) st = Inr s1"
      and f1: "fin_on {..<rpc * n} s1" and m1: "m_mono st s1"
      by auto
    have n: "n < unat nc" using Suc.prems by simp
    have rows: "row_loop (start_row (fa_B_r l) nc (of_nat n)) (end_row (fa_B_r l) nc (of_nat n))
        = [rpc * n ..< rpc * n + rpc]"
      unfolding rpc_def by (rule row_loop_core [OF nz dv n])
    have "rpc * (n + 1) \<le> rpc * unat nc"
      using n by (intro mult_le_mono2) simp
    then have le: "rpc * n + rpc \<le> unat (fa_B_r l)"
      using full by simp
    have inb: "list_all (\<lambda>r. r < unat (fa_B_r l) \<and> r < 2 ^ 31) [rpc * n ..< rpc * n + rpc]"
      unfolding list_all_iff using le small by auto
    have "t_c = 0 \<or> fin_on (set [rpc * n ..< rpc * n + rpc]) s1"
    proof (cases "t_c = 0")
      case True
      then show ?thesis by simp
    next
      case False
      then have "fin_on {..<unat (fa_B_r l)} st" using ok by simp
      then have "fin_on (set [rpc * n ..< rpc * n + rpc]) st"
        by (rule fin_on_subset) (use le in auto)
      then have "fin_on (set [rpc * n ..< rpc * n + rpc]) s1"
        by (rule fin_on_mono [OF m1])
      then show ?thesis by simp
    qed
    from softmax_rows_total [OF bc this, of "fa_d l"]
    obtain s2 where s2: "fa_rows (fa_softmax_row t_c (fa_B_c l) (fa_d l)) [rpc * n ..< rpc * n + rpc] s1 = Inr s2"
      and f2: "fin_on (set [rpc * n ..< rpc * n + rpc]) s2" and m2: "m_mono s1 s2"
      by blast
    have core: "?g (of_nat n) s1 = Inr s2"
      using inb by (simp add: fa_core_rows_def Let_def rows s2)
    have "fin_on {..<rpc * n} s2"
      using m2 f1 by (rule fin_on_mono)
    then have "fin_on ({..<rpc * n} \<union> set [rpc * n ..< rpc * n + rpc]) s2"
      using f2 by (rule fin_on_Un)
    moreover have "{..<rpc * n} \<union> set [rpc * n ..< rpc * n + rpc] = {..<rpc * Suc n}"
      by auto
    ultimately have "fin_on {..<rpc * Suc n} s2" by simp
    moreover have "m_mono st s2" using m1 m2 by (rule m_mono_trans)
    moreover have "fa_cores ?g (map of_nat [0..<Suc n]) st = Inr s2"
      by (simp add: fa_cores_snoc s1 core)
    ultimately show ?case by blast
  qed
  from pre [of "unat nc"] show ?thesis
    by (auto simp: full)
qed

lemma fa_inner_total:
  assumes nz: "nc \<noteq> 0" and dv: "unat nc dvd unat (fa_B_r l)"
    and small: "unat (fa_B_r l) \<le> 2 ^ 31" and bc: "fa_B_c l \<noteq> 0"
    and ok: "t_c = 0 \<or> fin_on {..<unat (fa_B_r l)} st"
  shows "\<exists>st'. fa_inner nc (map of_nat [0..<unat nc]) l K V t_c st = Inr st'
      \<and> fin_on {..<unat (fa_B_r l)} st'"
proof -
  let ?d = "unat (fa_d l)" and ?Bc = "unat (fa_B_c l)" and ?Br = "unat (fa_B_r l)"
  let ?off = "unat (of_nat t_c * fa_B_c l * fa_d l)"
  let ?st1 = "st\<lparr>K_fa := dma_2d (K_fa st) 0 K ?off ?d ?d ?d ?Bc,
                  V_fa := dma_2d (V_fa st) 0 V ?off ?d ?d ?d ?Bc\<rparr>"
  let ?st2 = "?st1\<lparr>S_fa := gemm False True ?Br ?Bc ?d 1 (Q_fa ?st1) ?d (K_fa ?st1) ?d 0 (S_fa ?st1) ?Bc\<rparr>"
  have "t_c = 0 \<or> fin_on {..<?Br} ?st2"
    using ok by (auto simp: fin_on_def)
  from softmax_cores_total [OF nz dv small bc this]
  obtain st3 where c: "fa_cores (fa_core_rows (fa_B_r l) nc (fa_softmax_row t_c (fa_B_c l) (fa_d l)))
                  (map of_nat [0..<unat nc]) ?st2 = Inr st3"
    and f: "fin_on {..<?Br} st3"
    by blast
  show ?thesis
    unfolding fa_inner_def Let_def c using f by (auto simp: fin_on_def)
qed

lemma fa_inner_loop_total:
  assumes nz: "nc \<noteq> 0" and dv: "unat nc dvd unat (fa_B_r l)"
    and small: "unat (fa_B_r l) \<le> 2 ^ 31" and bc: "fa_B_c l \<noteq> 0"
  shows "fin_on {..<unat (fa_B_r l)} st
     \<Longrightarrow> \<exists>st'. fa_inner_loop nc (map of_nat [0..<unat nc]) l K V ts st = Inr st'"
proof (induction ts arbitrary: st)
  case Nil
  show ?case by simp
next
  case (Cons t ts)
  from fa_inner_total [OF nz dv small bc, of t st K V] Cons.prems
  obtain s1 where "fa_inner nc (map of_nat [0..<unat nc]) l K V t st = Inr s1"
    "fin_on {..<unat (fa_B_r l)} s1"
    by blast
  then show ?case using Cons.IH [of s1] by auto
qed

lemma fa_after_tiles_total:
  assumes nz: "nc \<noteq> 0" and dv: "unat nc dvd unat (fa_B_r l)"
    and small: "unat (fa_B_r l) \<le> 2 ^ 31" and bc: "fa_B_c l \<noteq> 0"
  shows "\<exists>s. fa_after_tiles nc (map of_nat [0..<unat nc]) l Q K V t_r n st = Inr s"
proof -
  let ?ids = "map of_nat [0..<unat nc] :: u32 list"
  from init_stats_reset [OF nz dv small, of "fa_load_Q l Q t_r st"]
  obtain s0 where i: "fa_init_stats nc ?ids l (fa_load_Q l Q t_r st) = Inr s0"
    by blast
  show ?thesis
  proof (cases n)
    case 0
    then show ?thesis by (simp add: fa_after_tiles_def i)
  next
    case (Suc k)
    have u: "[0..<Suc k] = 0 # [1..<Suc k]"
      by (simp add: upt_conv_Cons)
    from fa_inner_total [OF nz dv small bc, of 0 s0 K V]
    obtain s1 where s1: "fa_inner nc ?ids l K V 0 s0 = Inr s1"
      and f1: "fin_on {..<unat (fa_B_r l)} s1"
      by blast
    from fa_inner_loop_total [OF nz dv small bc f1, of K V "[1..<Suc k]"]
    obtain s2 where "fa_inner_loop nc ?ids l K V [1..<Suc k] s1 = Inr s2"
      by blast
    then show ?thesis
      unfolding Suc fa_after_tiles_def u by (simp add: i s1)
  qed
qed

end
